theory Spec2Isabelle
  imports Complex_Main "HOL-Library.Product_Lexorder" "HOL-Library.Sublist"
begin

section \<open>The notation library, as far as music.py uses it\<close>

text \<open>
  music.py builds its score from the objects of a notation library: pitches, notes,
  chords, streams (parts, measures, the score) and tempo marks. This section gives those
  objects as data and the library calls of music.py as functions on them. Quarter lengths
  are exact rationals (the library keeps them as fractions, so that 2/3 + 1/3 is one
  beat); loudness is a MIDI velocity. A call that raises in the library returns
  \<open>Inl\<close> of an error here.
\<close>

datatype error = PitchException | AccidentalException | IntervalException | KeyError | IndexError

subsection \<open>The pseudorandom generator\<close>

text \<open>
  Python's \<open>random\<close> module holds one process-wide generator. Its state is passed
  explicitly here: an infinite tape of raw outcomes and a read position. Each draw reads
  the outcome under the position and moves the position on. Since the tape is arbitrary,
  a statement about every \<open>rng\<close> is a statement about every sequence of outcomes.
\<close>

record rng =
  tape :: "nat \<Rightarrow> nat"
  pos :: nat

definition next_raw :: "rng \<Rightarrow> nat \<times> rng" where
  "next_raw g = (tape g (pos g), g\<lparr>pos := Suc (pos g)\<rparr>)"

text \<open>\<open>random.random()\<close>: a 53-bit fraction in [0, 1).\<close>

definition random_unit :: "rng \<Rightarrow> rat \<times> rng" where
  "random_unit g = (let (r, g') = next_raw g in (of_nat (r mod 2 ^ 53) / 2 ^ 53, g'))"

text \<open>\<open>Random._randbelow(n)\<close>: an index below \<open>n\<close>.\<close>

definition randbelow :: "nat \<Rightarrow> rng \<Rightarrow> nat \<times> rng" where
  "randbelow n g = (let (r, g') = next_raw g in (r mod n, g'))"

text \<open>\<open>random.choice(seq)\<close>: \<open>seq[randbelow(len(seq))]\<close>; an empty sequence raises.\<close>

definition choice :: "'a list \<Rightarrow> rng \<Rightarrow> error + ('a \<times> rng)" where
  "choice seq g =
     (if seq = [] then Inl IndexError
      else (let (k, g') = randbelow (length seq) g in Inr (seq ! k, g')))"

text \<open>
  \<open>random.choices(population, weights=weights, k=1)[0]\<close>: the weights are accumulated,
  one uniform draw is scaled by their total, and the index is the bisection point of the
  scaled draw among the cumulative weights, searched below \<open>hi = n - 1\<close>.
\<close>

fun accumulate :: "rat \<Rightarrow> rat list \<Rightarrow> rat list" where
  "accumulate acc [] = []"
| "accumulate acc (w # ws) = (acc + w) # accumulate (acc + w) ws"

definition bisect :: "rat list \<Rightarrow> rat \<Rightarrow> nat \<Rightarrow> nat" where
  "bisect cum x hi = length (takeWhile (\<lambda>c. c \<le> x) (take hi cum))"

definition choices :: "'a list \<Rightarrow> rat list \<Rightarrow> rng \<Rightarrow> error + ('a \<times> rng)" where
  "choices population weights g =
     (let n = length population;
          cum_weights = accumulate 0 weights
      in if cum_weights = [] \<or> n = 0 then Inl IndexError
         else (let total = last cum_weights;
                   hi = n - 1;
                   (u, g') = random_unit g
               in Inr (population ! bisect cum_weights (u * total) hi, g')))"

subsection \<open>Pitches\<close>

text \<open>
  A pitch is a step letter, an accidental (\<open>alter\<close>, in semitones), an octave and a
  microtone in cents. The model covers the names with an octave number and up to three
  sharps (\<open>#\<close>) or flats (\<open>-\<close>, or a single \<open>b\<close>); the library's quarter-tone and
  quadruple accidentals and its names without an octave are left out, and such a name is
  an error here.
\<close>

record pitch =
  step :: char
  alter :: int
  octave :: int
  microtone :: int

definition is_digit :: "char \<Rightarrow> bool" where
  "is_digit c = (c \<in> set ''0123456789'')"

definition digit_val :: "char \<Rightarrow> nat" where
  "digit_val c = of_char c - 48"

definition accidental_alter :: "string \<Rightarrow> int option" where
  "accidental_alter s =
     (if s = [] then Some 0
      else if s = ''b'' then Some (- 1)
      else if length s \<le> 3 \<and> s = replicate (length s) (CHR ''#'') then Some (int (length s))
      else if length s \<le> 3 \<and> s = replicate (length s) (CHR ''-'') then Some (- int (length s))
      else None)"

definition Pitch :: "string \<Rightarrow> error + pitch" where
  "Pitch name =
     (let octFound = filter is_digit name;
          octNot = filter (\<lambda>c. \<not> is_digit c) name
      in case octNot of
           [] \<Rightarrow> Inl PitchException
         | s # acc \<Rightarrow>
             if s \<notin> set ''CDEFGAB'' \<or> octFound = [] then Inl PitchException
             else (case accidental_alter acc of
                     None \<Rightarrow> Inl AccidentalException
                   | Some a \<Rightarrow>
                       Inr \<lparr>step = s, alter = a,
                            octave = int (foldl (\<lambda>v c. 10 * v + digit_val c) 0 octFound),
                            microtone = 0\<rparr>))"

text \<open>\<open>Pitch.nameWithOctave\<close>: step, accidental signs and octave; the microtone is not part of it.\<close>

definition digit_char :: "nat \<Rightarrow> char" where
  "digit_char d = char_of (48 + d)"

function show_nat :: "nat \<Rightarrow> string" where
  "show_nat n = (if n < 10 then [digit_char n] else show_nat (n div 10) @ [digit_char (n mod 10)])"
  by pat_completeness auto
termination
  by (relation "measure id") auto

definition show_int :: "int \<Rightarrow> string" where
  "show_int i = (if i < 0 then CHR ''-'' # show_nat (nat (- i)) else show_nat (nat i))"

definition modifier :: "int \<Rightarrow> string" where
  "modifier a = (if 0 \<le> a then replicate (nat a) (CHR ''#'') else replicate (nat (- a)) (CHR ''-''))"

definition nameWithOctave :: "pitch \<Rightarrow> string" where
  "nameWithOctave p = step p # modifier (alter p) @ show_int (octave p)"

text \<open>Pitch space: the MIDI number of the notated pitch (the microtone aside).\<close>

definition step_index :: "char \<Rightarrow> nat" where
  "step_index s =
     (if s = CHR ''C'' then 0 else if s = CHR ''D'' then 1 else if s = CHR ''E'' then 2
      else if s = CHR ''F'' then 3 else if s = CHR ''G'' then 4 else if s = CHR ''A'' then 5
      else 6)"

definition step_ref :: "nat \<Rightarrow> int" where
  "step_ref i = [0, 2, 4, 5, 7, 9, 11] ! (i mod 7)"

definition step_name :: "nat \<Rightarrow> char" where
  "step_name i = ''CDEFGAB'' ! (i mod 7)"

definition diatonicNoteNum :: "pitch \<Rightarrow> int" where
  "diatonicNoteNum p = 7 * octave p + int (step_index (step p))"

definition ps :: "pitch \<Rightarrow> int" where
  "ps p = 12 * (octave p + 1) + step_ref (step_index (step p)) + alter p"

text \<open>
  An interval name stands for a number of diatonic steps and a number of semitones.
  \<open>Pitch.transpose\<close> moves the step and octave by the diatonic steps, then sets the
  accidental that makes up the semitones; the microtone of the copy is kept.
\<close>

definition interval_table :: "(string \<times> (int \<times> int)) list" where
  "interval_table =
     [(''P1'', (0, 0)), (''m2'', (1, 1)), (''M2'', (1, 2)), (''m3'', (2, 3)), (''M3'', (2, 4)),
      (''P4'', (3, 5)), (''A4'', (3, 6)), (''d5'', (4, 6)), (''P5'', (4, 7)), (''m6'', (5, 8)),
      (''M6'', (5, 9)), (''m7'', (6, 10)), (''M7'', (6, 11)), (''P8'', (7, 12))]"

definition Interval :: "string \<Rightarrow> error + (int \<times> int)" where
  "Interval name = (case map_of interval_table name of None \<Rightarrow> Inl IntervalException | Some i \<Rightarrow> Inr i)"

definition transposePitch :: "pitch \<Rightarrow> int \<times> int \<Rightarrow> pitch" where
  "transposePitch p i =
     (let dn = diatonicNoteNum p + fst i;
          p2 = p\<lparr>step := step_name (nat (dn mod 7)), octave := dn div 7, alter := 0\<rparr>;
          halfStepsToFix = snd i - (ps p2 - ps p)
      in p2\<lparr>alter := halfStepsToFix\<rparr>)"

definition transpose :: "pitch \<Rightarrow> string \<Rightarrow> error + pitch" where
  "transpose p name = (case Interval name of Inl e \<Rightarrow> Inl e | Inr i \<Rightarrow> Inr (transposePitch p i))"

text \<open>A pitch given as a MIDI number is spelled with the library's default spelling.\<close>

definition pitch_of_midi :: "nat \<Rightarrow> pitch" where
  "pitch_of_midi m =
     (let (s, a) = [(CHR ''C'', 0), (CHR ''C'', 1), (CHR ''D'', 0), (CHR ''E'', - 1), (CHR ''E'', 0),
                    (CHR ''F'', 0), (CHR ''F'', 1), (CHR ''G'', 0), (CHR ''G'', 1), (CHR ''A'', 0),
                    (CHR ''B'', - 1), (CHR ''B'', 0)] ! (m mod 12)
      in \<lparr>step = s, alter = a, octave = int (m div 12) - 1, microtone = 0\<rparr>)"

subsection \<open>Notes, chords and streams\<close>

text \<open>
  A note carries a pitch, a loudness (no velocity until one is set) and articulations; a
  chord is a list of such components under one duration. A duration is a quarter length
  and the tuplets set on it.
\<close>

record component =
  c_pitch :: pitch
  velocity :: "nat option"
  articulations :: "string list"

record duration =
  quarterLength :: rat
  tuplets :: "(nat \<times> nat) list"

datatype general_note = Note component duration | Chord "component list" duration

definition bind_err :: "error + 'a \<Rightarrow> ('a \<Rightarrow> error + 'b) \<Rightarrow> error + 'b" where
  "bind_err r f = (case r of Inl e \<Rightarrow> Inl e | Inr x \<Rightarrow> f x)"

definition default_duration :: duration where
  "default_duration = \<lparr>quarterLength = 1, tuplets = []\<rparr>"

definition new_component :: "pitch \<Rightarrow> component" where
  "new_component p = \<lparr>c_pitch = p, velocity = None, articulations = []\<rparr>"

text \<open>\<open>note.Note(name)\<close> and \<open>note.Note(midi)\<close>.\<close>

definition new_note :: "string \<Rightarrow> error + general_note" where
  "new_note name = bind_err (Pitch name) (\<lambda>p. Inr (Note (new_component p) default_duration))"

definition new_note_midi :: "nat \<Rightarrow> general_note" where
  "new_note_midi m = Note (new_component (pitch_of_midi m)) default_duration"

text \<open>\<open>chord.Chord(notes)\<close>, from note names, from MIDI numbers and from notes.\<close>

fun pitches_of_names :: "string list \<Rightarrow> error + pitch list" where
  "pitches_of_names [] = Inr []"
| "pitches_of_names (n # ns) =
     bind_err (Pitch n) (\<lambda>p. bind_err (pitches_of_names ns) (\<lambda>ps. Inr (p # ps)))"

definition new_chord :: "string list \<Rightarrow> error + general_note" where
  "new_chord names =
     bind_err (pitches_of_names names) (\<lambda>ps. Inr (Chord (map new_component ps) default_duration))"

definition new_chord_midi :: "nat list \<Rightarrow> general_note" where
  "new_chord_midi ms = Chord (map (\<lambda>m. new_component (pitch_of_midi m)) ms) default_duration"

definition components :: "general_note \<Rightarrow> component list" where
  "components n = (case n of Note c d \<Rightarrow> [c] | Chord cs d \<Rightarrow> cs)"

definition duration_of :: "general_note \<Rightarrow> duration" where
  "duration_of n = (case n of Note c d \<Rightarrow> d | Chord cs d \<Rightarrow> d)"

text \<open>A chord made from notes takes their components and the duration of the first.\<close>

definition new_chord_notes :: "general_note list \<Rightarrow> general_note" where
  "new_chord_notes ns =
     Chord (concat (map components ns))
       (case ns of [] \<Rightarrow> default_duration | n # rest \<Rightarrow> duration_of n)"

definition map_duration :: "(duration \<Rightarrow> duration) \<Rightarrow> general_note \<Rightarrow> general_note" where
  "map_duration f n = (case n of Note c d \<Rightarrow> Note c (f d) | Chord cs d \<Rightarrow> Chord cs (f d))"

definition set_quarterLength :: "rat \<Rightarrow> general_note \<Rightarrow> general_note" where
  "set_quarterLength q = map_duration (\<lambda>d. d\<lparr>quarterLength := q\<rparr>)"

definition set_tuplets :: "(nat \<times> nat) list \<Rightarrow> general_note \<Rightarrow> general_note" where
  "set_tuplets ts = map_duration (\<lambda>d. d\<lparr>tuplets := ts\<rparr>)"

definition map_components :: "(component \<Rightarrow> component) \<Rightarrow> general_note \<Rightarrow> general_note" where
  "map_components f n = (case n of Note c d \<Rightarrow> Note (f c) d | Chord cs d \<Rightarrow> Chord (map f cs) d)"

definition set_velocity :: "nat \<Rightarrow> general_note \<Rightarrow> general_note" where
  "set_velocity v = map_components (\<lambda>c. c\<lparr>velocity := Some v\<rparr>)"

definition add_articulation :: "string \<Rightarrow> general_note \<Rightarrow> general_note" where
  "add_articulation a = map_components (\<lambda>c. c\<lparr>articulations := articulations c @ [a]\<rparr>)"

text \<open>\<open>n.transpose(name)\<close> on a note or chord transposes each of its pitches.\<close>

fun transpose_components :: "component list \<Rightarrow> string \<Rightarrow> error + component list" where
  "transpose_components [] name = Inr []"
| "transpose_components (c # cs) name =
     bind_err (transpose (c_pitch c) name) (\<lambda>p.
     bind_err (transpose_components cs name) (\<lambda>cs'. Inr (c\<lparr>c_pitch := p\<rparr> # cs')))"

definition transpose_note :: "general_note \<Rightarrow> string \<Rightarrow> error + general_note" where
  "transpose_note n name =
     (case n of
        Note c d \<Rightarrow> bind_err (transpose (c_pitch c) name) (\<lambda>p. Inr (Note (c\<lparr>c_pitch := p\<rparr>) d))
      | Chord cs d \<Rightarrow> bind_err (transpose_components cs name) (\<lambda>cs'. Inr (Chord cs' d)))"

definition ql :: "general_note \<Rightarrow> rat" where
  "ql n = quarterLength (duration_of n)"

text \<open>
  A stream keeps its elements with their offsets, in the order of insertion.
  \<open>insert\<close> puts an element at the given offset, \<open>append\<close> at the stream's highest
  time (the latest end of an element, 0 in an empty stream). Reading a stream
  (iteration, \<open>recurse\<close>) goes by offset, then by the class sort order of the element,
  then by insertion order.
\<close>

type_synonym 'a stream = "(rat \<times> 'a) list"

definition highestTime :: "('a \<Rightarrow> rat) \<Rightarrow> 'a stream \<Rightarrow> rat" where
  "highestTime dur s = foldr (\<lambda>(off, e) m. max (off + dur e) m) s 0"

definition insert_at :: "rat \<Rightarrow> 'a \<Rightarrow> 'a stream \<Rightarrow> 'a stream" where
  "insert_at off e s = s @ [(off, e)]"

definition append_el :: "('a \<Rightarrow> rat) \<Rightarrow> 'a \<Rightarrow> 'a stream \<Rightarrow> 'a stream" where
  "append_el dur e s = s @ [(highestTime dur s, e)]"

record measure =
  timeSignature :: "string option"
  m_elements :: "general_note stream"

datatype element =
    Instrument string
  | MetronomeMark nat
  | GeneralNote general_note
  | Measure measure

definition el_ql :: "element \<Rightarrow> rat" where
  "el_ql e = (case e of GeneralNote n \<Rightarrow> ql n | Measure m \<Rightarrow> highestTime ql (m_elements m) | _ \<Rightarrow> 0)"

definition classSortOrder :: "element \<Rightarrow> int" where
  "classSortOrder e =
     (case e of Instrument i \<Rightarrow> - 25 | Measure m \<Rightarrow> - 20 | MetronomeMark t \<Rightarrow> 1 | GeneralNote n \<Rightarrow> 20)"

definition elements :: "element stream \<Rightarrow> element stream" where
  "elements s = sort_key (\<lambda>(off, e). (off, classSortOrder e)) s"

text \<open>
  \<open>s.recurse().notes\<close>: the notes and chords of the stream and of the measures in it,
  each with its offset in its own container.
\<close>

definition recurse_notes :: "element stream \<Rightarrow> general_note stream" where
  "recurse_notes s =
     concat (map (\<lambda>(off, e). case e of GeneralNote n \<Rightarrow> [(off, n)]
                              | Measure m \<Rightarrow> sort_key fst (m_elements m)
                              | _ \<Rightarrow> []) (elements s))"

record part =
  part_id :: "string option"
  p_elements :: "element stream"

datatype score_element = Element element | Part part

record score =
  title :: string
  composer :: string
  s_elements :: "score_element stream"

section \<open>music.py\<close>

subsection \<open>Theoretical modelling: the scale\<close>

definition intervals :: "string list" where
  "intervals = [''M2'', ''M3'', ''A4'', ''P5'', ''M6'', ''M7'']"

fun yaman_loop :: "pitch \<Rightarrow> string list \<Rightarrow> pitch list \<Rightarrow> error + pitch list" where
  "yaman_loop tonic [] yaman_pitches = Inr yaman_pitches"
| "yaman_loop tonic (int_str # rest) yaman_pitches =
     bind_err (transpose tonic int_str)
       (\<lambda>p. yaman_loop tonic rest
               (yaman_pitches @ [if int_str = ''A4'' then p\<lparr>microtone := 10\<rparr> else p]))"

definition get_yaman_scale :: "string \<Rightarrow> error + pitch list" where
  "get_yaman_scale root_note =
     bind_err (Pitch root_note) (\<lambda>tonic. yaman_loop tonic intervals [tonic])"

subsection \<open>Instrumentation and percussion map\<close>

definition tabla_map :: "string \<rightharpoonup> nat list" where
  "tabla_map = map_of
     [(''Ge'', [36]), (''Na'', [37]), (''Tin'', [45]), (''Dha'', [36, 37]),
      (''Dhin'', [36, 45]), (''Ka'', [44]), (''Ke'', [44])]"

definition create_sitar_drone :: "error + part" where
  "create_sitar_drone =
     bind_err (new_note ''D3'') (\<lambda>drone_root.
     bind_err (new_note ''A3'') (\<lambda>drone_fifth.
       Inr \<lparr>part_id = None,
            p_elements =
              insert_at 0 (GeneralNote (set_quarterLength 100 (set_velocity 30 drone_fifth)))
             (insert_at 0 (GeneralNote (set_quarterLength 100 (set_velocity 30 drone_root)))
             (insert_at 0 (Instrument ''Sitar'') []))\<rparr>))"

subsection \<open>Movement I: the alaap\<close>

definition weights :: "rat list" where
  "weights = [1 / 10, 1 / 10, 3 / 10, 1 / 10, 1 / 10, 1 / 10, 2 / 10]"

definition alaap_durations :: "rat list" where
  "alaap_durations = [1 / 2, 1, 3 / 2, 2]"

text \<open>
  The cursor \<open>current_offset\<close> starts as the double \<open>0.0\<close>, and \<open>current_offset += dur\<close>
  is an addition of doubles: the exact sum, rounded to the nearest double, ties to the
  even one. Doubles of magnitude \<open>2^e\<close> to \<open>2^(e+1)\<close> lie \<open>2^(e-52)\<close> apart. Below \<open>2^52\<close>
  every multiple of 1/2 is a double, and the cursor and the drawn lengths are such
  multiples; \<open>round_double\<close> therefore takes the grid of 1/2 there, which leaves those sums
  as they are, and the true grid from \<open>2^52\<close> on (overflow to infinity, beyond \<open>2^1023\<close>,
  is left out). The lengths of the notes themselves are stored as drawn.
\<close>

fun bit_length :: "nat \<Rightarrow> nat" where
  "bit_length n = (if n = 0 then 0 else Suc (bit_length (n div 2)))"

declare bit_length.simps [simp del]

definition ulp :: "rat \<Rightarrow> rat" where
  "ulp x = (if \<bar>x\<bar> < 2 ^ 52 then 1 / 2 else 2 ^ (bit_length (nat \<lfloor>\<bar>x\<bar>\<rfloor>) - 53))"

definition round_double :: "rat \<Rightarrow> rat" where
  "round_double x =
     (let u = ulp x;
          q = x / u;
          n = \<lfloor>q\<rfloor>;
          r = q - of_int n
      in u * of_int (if r < 1 / 2 then n else if 1 / 2 < r then n + 1
                     else if even n then n else n + 1))"

definition fl_add :: "rat \<Rightarrow> rat \<Rightarrow> rat" where
  "fl_add x y = round_double (x + y)"

text \<open>
  The \<open>while\<close> loop. It need not end: the value \<open>None\<close> stands for a run that never
  leaves the loop.
\<close>

partial_function (option) alaap_loop ::
  "rat \<Rightarrow> string list \<Rightarrow> rat \<Rightarrow> element stream \<Rightarrow> rng \<Rightarrow>
   (error + (element stream \<times> rng)) option" where
  "alaap_loop duration_quarters scale_names current_offset alaap_stream g =
     (if current_offset < duration_quarters then
        (case choices scale_names weights g of
           Inl e \<Rightarrow> Some (Inl e)
         | Inr (p_str, g1) \<Rightarrow>
             (case new_note p_str of
                Inl e \<Rightarrow> Some (Inl e)
              | Inr n \<Rightarrow>
                  (case choice alaap_durations g1 of
                     Inl e \<Rightarrow> Some (Inl e)
                   | Inr (dur, g2) \<Rightarrow>
                       alaap_loop duration_quarters scale_names (fl_add current_offset dur)
                         (insert_at current_offset (GeneralNote (set_quarterLength dur n)) alaap_stream)
                         g2)))
      else Some (Inr (alaap_stream, g)))"

definition generate_alaap :: "rat \<Rightarrow> rng \<Rightarrow> (error + (part \<times> rng)) option" where
  "generate_alaap duration_quarters g =
     (case get_yaman_scale ''D4'' of
        Inl e \<Rightarrow> Some (Inl e)
      | Inr yaman_scale \<Rightarrow>
          (case alaap_loop duration_quarters (map nameWithOctave yaman_scale) 0
                  (insert_at 0 (Instrument ''Sitar'') []) g of
             None \<Rightarrow> None
           | Some r \<Rightarrow>
               Some (bind_err r (\<lambda>(alaap_stream, g').
                 Inr (\<lparr>part_id = None, p_elements = alaap_stream\<rparr>, g')))))"

subsection \<open>Movement II: the fracture\<close>

text \<open>
  The loop body, for \<open>i\<close> in \<open>range(16)\<close>. The quarter length 1 given to the two notes
  is superseded by the 2 given to the chord. The comment beside the velocity speaks of a
  cap; the code applies none.
\<close>

fun fracture_loop :: "nat list \<Rightarrow> element stream \<Rightarrow> error + element stream" where
  "fracture_loop [] fracture_stream = Inr fracture_stream"
| "fracture_loop (i # rest) fracture_stream =
     bind_err (new_note ''G3'') (\<lambda>n1.
     bind_err (new_note ''G#3'') (\<lambda>n2.
       (let n1a = set_quarterLength 1 n1;
            n2a = set_quarterLength 1 n2;
            sp = ''StrongAccent'';
            n1b = add_articulation sp n1a;
            n2b = add_articulation sp n2a;
            velocity = 60 + i * 3;
            n1c = set_velocity velocity n1b;
            n2c = set_velocity velocity n2b;
            clash_chord = set_quarterLength 2 (new_chord_notes [n1c, n2c])
        in fracture_loop rest (append_el el_ql (GeneralNote clash_chord) fracture_stream))))"

definition generate_fracture_texture :: "error + part" where
  "generate_fracture_texture =
     bind_err (fracture_loop [0..<16] (insert_at 0 (Instrument ''Violoncello'') []))
       (\<lambda>fracture_stream. Inr \<lparr>part_id = None, p_elements = fracture_stream\<rparr>)"

subsection \<open>Movement III: the march\<close>

definition make_power_chord :: "string \<Rightarrow> rat \<Rightarrow> error + general_note" where
  "make_power_chord root_name duration =
     bind_err (new_note root_name) (\<lambda>r.
     bind_err (transpose_note r ''P5'') (\<lambda>fifth.
       Inr (set_quarterLength duration (new_chord_notes [r, fifth]))))"

fun riff_loop :: "nat list \<Rightarrow> element stream \<Rightarrow> error + element stream" where
  "riff_loop [] riff_stream = Inr riff_stream"
| "riff_loop (i # rest) riff_stream =
     bind_err (make_power_chord ''D3'' 4) (\<lambda>c1.
     bind_err (make_power_chord ''A2'' 4) (\<lambda>c2.
     bind_err (make_power_chord ''G2'' 4) (\<lambda>c3.
     bind_err (new_chord [''G2'', ''Bb2'', ''D3'']) (\<lambda>gm.
       (let s1 = append_el el_ql (GeneralNote c1) riff_stream;
            s2 = append_el el_ql (GeneralNote c2) s1;
            s3 = append_el el_ql (GeneralNote c3) s2;
            gm_chord = set_quarterLength 4 gm;
            s4 = append_el el_ql (GeneralNote gm_chord) s3
        in riff_loop rest s4)))))"

definition generate_rock_riff :: "error + part" where
  "generate_rock_riff =
     bind_err (riff_loop [0..<4] (insert_at 0 (Instrument ''ElectricGuitar'') []))
       (\<lambda>riff_stream. Inr \<lparr>part_id = None, p_elements = riff_stream\<rparr>)"

definition long_beat :: rat where
  "long_beat = 2 / 3"

definition short_beat :: rat where
  "short_beat = 1 / 3"

definition pattern_bols :: "(string \<times> rat) list" where
  "pattern_bols =
     [(''Dha'', long_beat), (''Ge'', short_beat),
      (''Na'', long_beat), (''Tin'', short_beat),
      (''Na'', long_beat), (''Ka'', short_beat),
      (''Dhin'', long_beat), (''Na'', short_beat)]"

fun keherwa_loop :: "(string \<times> rat) list \<Rightarrow> general_note stream \<Rightarrow> error + general_note stream" where
  "keherwa_loop [] m = Inr m"
| "keherwa_loop ((bol, q_len) # rest) m =
     (case tabla_map bol of
        None \<Rightarrow> Inl KeyError
      | Some midi_vals \<Rightarrow>
          bind_err
            (if length midi_vals > 1 then Inr (new_chord_midi midi_vals)
             else (case midi_vals of [] \<Rightarrow> Inl IndexError | v # vs \<Rightarrow> Inr (new_note_midi v)))
            (\<lambda>n. (let n1 = set_quarterLength q_len n;
                       t = (3, 2);
                       n2 = set_tuplets [t] n1
                   in keherwa_loop rest (append_el ql n2 m))))"

definition create_keherwa_cycle :: "error + measure" where
  "create_keherwa_cycle =
     bind_err (keherwa_loop pattern_bols [])
       (\<lambda>m. Inr \<lparr>timeSignature = Some ''4/4'', m_elements = m\<rparr>)"

subsection \<open>Movement IV: the synthesis\<close>

fun synthesis_loop ::
  "nat list \<Rightarrow> string list \<Rightarrow> element stream \<Rightarrow> rng \<Rightarrow> error + (element stream \<times> rng)" where
  "synthesis_loop [] safe_note_names synthesis_part g = Inr (synthesis_part, g)"
| "synthesis_loop (i # rest) safe_note_names synthesis_part g =
     bind_err (choice safe_note_names g) (\<lambda>(p_str, g1).
     bind_err (new_note p_str) (\<lambda>n.
       synthesis_loop rest safe_note_names
         (append_el el_ql (GeneralNote (set_quarterLength (1 / 2) n)) synthesis_part) g1))"

definition generate_synthesis_melody :: "rng \<Rightarrow> error + (part \<times> rng)" where
  "generate_synthesis_melody g =
     bind_err (get_yaman_scale ''D4'') (\<lambda>yaman_scale.
     bind_err (synthesis_loop [0..<8 * 8] (map nameWithOctave yaman_scale)
                 (insert_at 0 (Instrument ''Sitar'') []) g) (\<lambda>(synthesis_part, g').
       Inr (\<lparr>part_id = None, p_elements = synthesis_part\<rparr>, g')))"

subsection \<open>Main assembly: the conductor\<close>

text \<open>
  \<open>for element in fragment.recurse().notes: master.insert(start + element.offset, element)\<close>.
\<close>

fun insert_notes :: "rat \<Rightarrow> general_note stream \<Rightarrow> element stream \<Rightarrow> element stream" where
  "insert_notes start [] master = master"
| "insert_notes start ((offset, element) # rest) master =
     insert_notes start rest (insert_at (start + offset) (GeneralNote element) master)"

text \<open>
  \<open>for measure in drums_part: master_drums.insert(current_drum_offset, measure);
  current_drum_offset += 4.0\<close>. The loop goes over every element of \<open>drums_part\<close>, whatever
  its class.
\<close>

fun drum_loop :: "element stream \<Rightarrow> rat \<Rightarrow> element stream \<Rightarrow> element stream" where
  "drum_loop [] current_drum_offset master_drums = master_drums"
| "drum_loop ((offset, measure_el) # rest) current_drum_offset master_drums =
     drum_loop rest (current_drum_offset + 4) (insert_at current_drum_offset measure_el master_drums)"

fun repeat_append :: "nat \<Rightarrow> element \<Rightarrow> element stream \<Rightarrow> element stream" where
  "repeat_append 0 e s = s"
| "repeat_append (Suc k) e s = repeat_append k e (append_el el_ql e s)"

definition synthesis_start_offset :: rat where
  "synthesis_start_offset = 32 + 32 + 64"

text \<open>
  The score is built when the alaap returns; a run of \<open>generate_alaap\<close> that never ends
  would leave \<open>build_sahar_e_nau\<close> without a result as well.
\<close>

definition build_sahar_e_nau :: "rng \<Rightarrow> (error + (score \<times> rng)) option" where
  "build_sahar_e_nau g =
     map_option (\<lambda>alaap_result.
     bind_err alaap_result (\<lambda>(sitar_alaap, g1).
     bind_err create_sitar_drone (\<lambda>sitar_drone.
     bind_err generate_fracture_texture (\<lambda>fracture.
     bind_err generate_rock_riff (\<lambda>guitar_riff.
     bind_err create_keherwa_cycle (\<lambda>keherwa_bar.
     bind_err (generate_synthesis_melody g1) (\<lambda>(sitar_synthesis, g2).
       (let drums_part = \<lparr>part_id = None,
                           p_elements = repeat_append 16 (Measure keherwa_bar)
                             (insert_at 0 (Instrument ''UnpitchedPercussion'') [])\<rparr>;
            master_sitar = \<lparr>part_id = Some ''Sitar'',
                            p_elements =
                              insert_notes synthesis_start_offset (recurse_notes (p_elements sitar_synthesis))
                             (insert_notes 0 (recurse_notes (p_elements sitar_alaap))
                             (insert_at 0 (Instrument ''Sitar'') []))\<rparr>;
            master_cello = \<lparr>part_id = Some ''Cello'',
                            p_elements =
                              insert_notes 32 (recurse_notes (p_elements fracture))
                             (insert_at 0 (Instrument ''Violoncello'') [])\<rparr>;
            master_guitar = \<lparr>part_id = Some ''Guitar'',
                             p_elements =
                               insert_notes 64 (recurse_notes (p_elements guitar_riff))
                              (insert_at 0 (Instrument ''ElectricGuitar'') [])\<rparr>;
            master_drums = \<lparr>part_id = Some ''Drums'',
                            p_elements =
                              drum_loop (elements (p_elements drums_part)) 64
                                (insert_at 0 (Instrument ''UnpitchedPercussion'') [])\<rparr>
        in Inr (\<lparr>title = ''Sahar-e-Nau: Symphony of the Awakening'',
                  composer = ''Faiz Fusion Project'',
                  s_elements =
                    insert_at 0 (Part master_drums)
                   (insert_at 0 (Part master_guitar)
                   (insert_at 0 (Part master_cello)
                   (insert_at 0 (Part master_sitar)
                   (insert_at 64 (Element (MetronomeMark 108))
                   (insert_at 0 (Element (MetronomeMark 72)) [])))))\<rparr>, g2)))))))))
       (generate_alaap 32 g)"

section \<open>Measures on generated parts\<close>

definition total_duration :: "element stream \<Rightarrow> rat" where
  "total_duration s = sum_list (map (\<lambda>(t, n). ql n) (recurse_notes s))"

definition zero_tape :: "nat \<Rightarrow> nat" where
  "zero_tape i = 0"

definition seed0 :: rng where
  "seed0 = \<lparr>tape = zero_tape, pos = 0\<rparr>"

definition notes_in :: "rat \<times> element \<Rightarrow> general_note stream" where
  "notes_in x = (case x of (t, e) \<Rightarrow>
     (case e of GeneralNote n \<Rightarrow> [(t, n)] | Measure m \<Rightarrow> sort_key fst (m_elements m) | _ \<Rightarrow> []))"

fun place :: "rat \<Rightarrow> ('a \<Rightarrow> rat) \<Rightarrow> 'a list \<Rightarrow> 'a stream" where
  "place t dur [] = []"
| "place t dur (e # es) = (t, e) # place (t + dur e) dur es"

definition keherwa_stroke :: "string \<times> rat \<Rightarrow> general_note" where
  "keherwa_stroke x =
     (case x of (bol, q_len) \<Rightarrow>
        (let midi_vals = the (tabla_map bol)
         in set_tuplets [(3, 2)] (set_quarterLength q_len
              (if length midi_vals > 1 then new_chord_midi midi_vals else new_note_midi (hd midi_vals)))))"

definition stream_key :: "rat \<times> element \<Rightarrow> rat \<times> int" where
  "stream_key x = (case x of (off, e) \<Rightarrow> (off, classSortOrder e))"

definition fracture_chord :: "nat \<Rightarrow> general_note" where
  "fracture_chord i =
     Chord [\<lparr>c_pitch = \<lparr>step = CHR ''G'', alter = 0, octave = 3, microtone = 0\<rparr>,
             velocity = Some (60 + i * 3), articulations = [''StrongAccent'']\<rparr>,
            \<lparr>c_pitch = \<lparr>step = CHR ''G'', alter = 1, octave = 3, microtone = 0\<rparr>,
             velocity = Some (60 + i * 3), articulations = [''StrongAccent'']\<rparr>]
       \<lparr>quarterLength = 2, tuplets = []\<rparr>"

definition plain :: "char \<Rightarrow> int \<Rightarrow> int \<Rightarrow> component" where
  "plain s a oct = new_component \<lparr>step = s, alter = a, octave = oct, microtone = 0\<rparr>"

definition riff_bar :: "general_note list" where
  "riff_bar =
     [Chord [plain (CHR ''D'') 0 3, plain (CHR ''A'') 0 3] \<lparr>quarterLength = 4, tuplets = []\<rparr>,
      Chord [plain (CHR ''A'') 0 2, plain (CHR ''E'') 0 3] \<lparr>quarterLength = 4, tuplets = []\<rparr>,
      Chord [plain (CHR ''G'') 0 2, plain (CHR ''D'') 0 3] \<lparr>quarterLength = 4, tuplets = []\<rparr>,
      Chord [plain (CHR ''G'') 0 2, plain (CHR ''B'') (- 1) 2, plain (CHR ''D'') 0 3]
        \<lparr>quarterLength = 4, tuplets = []\<rparr>]"

definition riff_chord_list :: "general_note list" where
  "riff_chord_list = concat (replicate 4 riff_bar)"

definition alaap_post :: "rat \<Rightarrow> rat \<Rightarrow> general_note list \<Rightarrow> bool" where
  "alaap_post D off ns =
     (let T = sum_list (map ql ns) in
      (\<forall>n\<in>set ns. ql n \<in> {1 / 2, 1, 3 / 2, 2}) \<and>
      (off < D \<longrightarrow> D \<le> off + T \<and> off + T < D + 2) \<and>
      (D \<le> off \<longrightarrow> ns = []) \<and>
      length ns \<le> nat \<lceil>2 * (D - off)\<rceil> \<and>
      (ns \<noteq> [] \<longrightarrow> off + sum_list (map ql (butlast ns)) < D))"

section \<open>Properties\<close>

subsection \<open>Streams\<close>

lemma ql_set_quarterLength: "ql (set_quarterLength q n) = q"
  by (cases n) (simp_all add: ql_def set_quarterLength_def map_duration_def duration_of_def)

lemma bisect_le: "bisect cum x hi \<le> hi"
proof -
  have "length (takeWhile (\<lambda>c. c \<le> x) (take hi cum)) \<le> length (take hi cum)"
    by (rule length_takeWhile_le)
  then show ?thesis by (simp add: bisect_def)
qed

lemma choices_weights_ok:
  assumes "names \<noteq> []"
  shows "\<exists>p g1. choices names weights g = Inr (p, g1) \<and> p \<in> set names"
proof -
  have w: "accumulate 0 weights \<noteq> []" by (simp add: weights_def)
  have n: "0 < length names" using assms by simp
  obtain u g' where u: "random_unit g = (u, g')" by (cases "random_unit g")
  let ?k = "bisect (accumulate 0 weights) (u * last (accumulate 0 weights)) (length names - 1)"
  have "?k \<le> length names - 1" by (rule bisect_le)
  with n have "?k < length names" by linarith
  then have "names ! ?k \<in> set names" by simp
  moreover have "choices names weights g = Inr (names ! ?k, g')"
    using w n u by (simp add: choices_def Let_def)
  ultimately show ?thesis by blast
qed

lemma choice_alaap_durations:
  assumes "choice alaap_durations g = Inr (d, g')"
  shows "d \<in> {1 / 2, 1, 3 / 2, 2}"
proof -
  have "tape g (pos g) mod 4 < 4" by simp
  then have "tape g (pos g) mod 4 \<in> {0, 1, 2, 3}" by auto
  with assms show ?thesis
    by (auto simp: choice_def alaap_durations_def randbelow_def next_raw_def)
qed

lemma choice_alaap_ok: "\<exists>d g2. choice alaap_durations g1 = Inr (d, g2)"
  by (simp add: choice_def alaap_durations_def randbelow_def next_raw_def)

lemma new_note_ok: "Pitch name = Inr p \<Longrightarrow> new_note name = Inr (Note (new_component p) default_duration)"
  by (simp add: new_note_def bind_err_def)

lemma alaap_step_measure:
  fixes D off dur :: rat
  assumes "off < D" "1 / 2 \<le> dur"
  shows "Suc (nat \<lceil>2 * (D - (off + dur))\<rceil>) \<le> nat \<lceil>2 * (D - off)\<rceil>"
proof -
  have "2 * (D - (off + dur)) \<le> 2 * (D - off) - 1" using assms by simp
  then have "\<lceil>2 * (D - (off + dur))\<rceil> \<le> \<lceil>2 * (D - off) - 1\<rceil>" by (rule ceiling_mono)
  then have "\<lceil>2 * (D - (off + dur))\<rceil> < \<lceil>2 * (D - off)\<rceil>" by simp
  moreover have "0 < \<lceil>2 * (D - off)\<rceil>" using assms by simp
  ultimately show ?thesis by linarith
qed

lemma sum_list_map_insort_key:
  fixes h :: "'a \<Rightarrow> 'b::comm_monoid_add"
  shows "sum_list (map h (insort_key k x xs)) = h x + sum_list (map h xs)"
  by (induction xs) (simp_all add: add.left_commute)

lemma sum_list_map_sort_key:
  fixes h :: "'a \<Rightarrow> 'b::comm_monoid_add"
  shows "sum_list (map h (sort_key k xs)) = sum_list (map h xs)"
  by (induction xs) (simp_all add: sum_list_map_insort_key)

lemma sum_list_map_concat:
  fixes h :: "'a \<Rightarrow> 'b::comm_monoid_add"
  shows "sum_list (map h (concat xss)) = sum_list (map (\<lambda>xs. sum_list (map h xs)) xss)"
  by (induction xss) simp_all

lemma recurse_notes_alt: "recurse_notes s = concat (map notes_in (elements s))"
  unfolding recurse_notes_def notes_in_def by (simp add: case_prod_unfold)

lemma total_duration_sum:
  "total_duration s = sum_list (map (\<lambda>x. sum_list (map (\<lambda>(t, n). ql n) (notes_in x))) s)"
proof -
  have "total_duration s = sum_list (map (\<lambda>x. sum_list (map (\<lambda>(t, n). ql n) (notes_in x))) (elements s))"
    by (simp add: total_duration_def recurse_notes_alt sum_list_map_concat comp_def)
  then show ?thesis by (simp add: elements_def sum_list_map_sort_key)
qed

lemma length_recurse_notes:
  "length (recurse_notes s) = sum_list (map (\<lambda>x. length (notes_in x)) s)"
proof -
  have "length (recurse_notes s) = sum_list (map (\<lambda>x. length (notes_in x)) (elements s))"
    by (simp add: recurse_notes_alt length_concat comp_def)
  then show ?thesis by (simp add: elements_def sum_list_map_sort_key)
qed

lemma all_notes_sum:
  assumes "list_all (\<lambda>(t, e). \<exists>n. e = GeneralNote n \<and> P n) new"
  shows "sum_list (map (\<lambda>x. sum_list (map (\<lambda>(t, n). ql n) (notes_in x))) new) =
         sum_list (map (\<lambda>(t, e). el_ql e) new)"
    and "sum_list (map (\<lambda>x. length (notes_in x)) new) = length new"
  using assms by (induction new) (auto simp: notes_in_def el_ql_def)

lemma yaman_D4_names:
  "map_sum id (map nameWithOctave) (get_yaman_scale ''D4'') =
     Inr [''D4'', ''E4'', ''F#4'', ''G#4'', ''A4'', ''B4'', ''C#5'']"
  by code_simp

lemma yaman_D4_names_parse:
  "list_all (\<lambda>n. \<not> isl (Pitch n)) [''D4'', ''E4'', ''F#4'', ''G#4'', ''A4'', ''B4'', ''C#5'']"
  by code_simp

lemma notes_in_Instrument: "notes_in (t, Instrument i) = []"
  by (simp add: notes_in_def)

lemma set_elements: "set (elements s) = set s"
  unfolding elements_def by (rule set_sort)

lemma list_all_recurse_notes:
  assumes "list_all (\<lambda>(t, e). \<exists>n. e = GeneralNote n \<and> P n) new"
  shows "list_all (\<lambda>(t, n). P n) (recurse_notes ((t0, Instrument i) # new))"
proof -
  have "\<forall>x\<in>set ((t0, Instrument i) # new). list_all (\<lambda>(t, n). P n) (notes_in x)"
    using assms by (auto simp: list_all_iff notes_in_def)
  then show ?thesis
    unfolding recurse_notes_alt list_all_iff by (auto simp: set_elements)
qed

subsection \<open>The scale\<close>

lemma transpose_names:
  "transpose p ''M2'' = Inr (transposePitch p (1, 2))"
  "transpose p ''M3'' = Inr (transposePitch p (2, 4))"
  "transpose p ''A4'' = Inr (transposePitch p (3, 6))"
  "transpose p ''P5'' = Inr (transposePitch p (4, 7))"
  "transpose p ''M6'' = Inr (transposePitch p (5, 9))"
  "transpose p ''M7'' = Inr (transposePitch p (6, 11))"
  by (simp_all add: transpose_def Interval_def interval_table_def)

lemma yaman_loop_intervals:
  "yaman_loop tonic intervals [tonic] =
     Inr [tonic, transposePitch tonic (1, 2), transposePitch tonic (2, 4),
          (transposePitch tonic (3, 6))\<lparr>microtone := 10\<rparr>, transposePitch tonic (4, 7),
          transposePitch tonic (5, 9), transposePitch tonic (6, 11)]"
  by (simp add: intervals_def transpose_names bind_err_def)

lemma step_index_step_name: "k < 7 \<Longrightarrow> step_index (step_name k) = k"
proof -
  assume "k < 7"
  then have "k \<in> {0, 1, 2, 3, 4, 5, 6}" by auto
  then show ?thesis by (auto simp: step_index_def step_name_def)
qed

lemma step_name_step_index: "s \<in> set ''CDEFGAB'' \<Longrightarrow> step_name (step_index s) = s"
  by (auto simp: step_index_def step_name_def)

lemma diatonicNoteNum_transposePitch:
  "diatonicNoteNum (transposePitch p (g, c)) = diatonicNoteNum p + g"
proof -
  let ?dn = "diatonicNoteNum p + g"
  have "nat (?dn mod 7) < 7" by simp
  then have "step_index (step_name (nat (?dn mod 7))) = nat (?dn mod 7)"
    by (rule step_index_step_name)
  then have "diatonicNoteNum (transposePitch p (g, c)) = 7 * (?dn div 7) + ?dn mod 7"
    by (simp add: transposePitch_def Let_def diatonicNoteNum_def)
  then show ?thesis by simp
qed

lemma ps_transposePitch: "ps (transposePitch p (g, c)) = ps p + c"
  by (simp add: transposePitch_def Let_def ps_def)

lemma microtone_transposePitch: "microtone (transposePitch p i) = microtone p"
  by (simp add: transposePitch_def Let_def)

lemma measures_microtone_update:
  "diatonicNoteNum (p\<lparr>microtone := c\<rparr>) = diatonicNoteNum p"
  "ps (p\<lparr>microtone := c\<rparr>) = ps p"
  by (simp_all add: diatonicNoteNum_def ps_def)

lemma Pitch_microtone: "Pitch name = Inr p \<Longrightarrow> microtone p = 0"
  by (auto simp: Pitch_def Let_def split: list.splits if_splits option.splits)

text \<open>
  Claim C4. For every root name that denotes a pitch, \<open>get_yaman_scale\<close> returns seven
  pitches, the root first. Measured from the root in diatonic steps and in semitones, the
  others stand a major second (1, 2), a major third (2, 4), an augmented fourth (3, 6), a
  perfect fifth (4, 7), a major sixth (5, 9) and a major seventh (6, 11) above it. The
  augmented fourth carries a microtone of 10 cents; every other entry carries none.
\<close>

theorem get_yaman_scale_intervals:
  assumes "Pitch root_note = Inr tonic"
  shows "\<exists>sc. get_yaman_scale root_note = Inr sc \<and> length sc = 7 \<and> hd sc = tonic \<and>
           map (\<lambda>p. (diatonicNoteNum p - diatonicNoteNum tonic, ps p - ps tonic)) sc =
             [(0, 0), (1, 2), (2, 4), (3, 6), (4, 7), (5, 9), (6, 11)] \<and>
           map microtone sc = [0, 0, 0, 10, 0, 0, 0]"
proof -
  have m: "microtone tonic = 0" using assms by (rule Pitch_microtone)
  have "get_yaman_scale root_note = yaman_loop tonic intervals [tonic]"
    using assms by (simp add: get_yaman_scale_def bind_err_def)
  then show ?thesis
    unfolding yaman_loop_intervals
    by (simp add: diatonicNoteNum_transposePitch ps_transposePitch microtone_transposePitch m
        measures_microtone_update)
qed

theorem get_yaman_scale_intervals_witness:
  "Pitch ''D4'' = Inr \<lparr>step = CHR ''D'', alter = 0, octave = 4, microtone = 0\<rparr> \<and>
   (\<exists>sc. get_yaman_scale ''D4'' = Inr sc \<and> length sc = 7 \<and>
      hd sc = \<lparr>step = CHR ''D'', alter = 0, octave = 4, microtone = 0\<rparr> \<and>
      map (\<lambda>p. (diatonicNoteNum p - diatonicNoteNum \<lparr>step = CHR ''D'', alter = 0, octave = 4, microtone = 0\<rparr>,
                 ps p - ps \<lparr>step = CHR ''D'', alter = 0, octave = 4, microtone = 0\<rparr>)) sc =
        [(0, 0), (1, 2), (2, 4), (3, 6), (4, 7), (5, 9), (6, 11)] \<and>
      map microtone sc = [0, 0, 0, 10, 0, 0, 0])"
proof -
  have h: "Pitch ''D4'' = Inr \<lparr>step = CHR ''D'', alter = 0, octave = 4, microtone = 0\<rparr>"
    by code_simp
  show ?thesis using h get_yaman_scale_intervals [OF h] by simp
qed

subsection \<open>Appended streams and the rhythmic cycle\<close>

lemma highestTime_snoc: "highestTime dur (s @ [(t, e)]) = max (t + dur e) (highestTime dur s)"
  by (induction s) (auto simp: highestTime_def max.left_commute)

lemma highestTime_nonneg: "0 \<le> highestTime dur s"
  by (induction s) (auto simp: highestTime_def max.coboundedI2)

lemma highestTime_append_el:
  assumes "0 \<le> dur e"
  shows "highestTime dur (append_el dur e s) = highestTime dur s + dur e"
  using assms by (simp add: append_el_def highestTime_snoc)

lemma ql_set_tuplets: "ql (set_tuplets ts n) = ql n"
  by (cases n) (simp_all add: ql_def set_tuplets_def map_duration_def duration_of_def)

lemma ql_keherwa_stroke: "ql (keherwa_stroke (bol, q)) = q"
  by (simp add: keherwa_stroke_def Let_def ql_set_tuplets ql_set_quarterLength)

lemma keherwa_loop_place:
  assumes "\<forall>(bol, q)\<in>set xs. (\<exists>vs. tabla_map bol = Some vs \<and> vs \<noteq> []) \<and> 0 \<le> q"
  shows "keherwa_loop xs m = Inr (m @ place (highestTime ql m) ql (map keherwa_stroke xs))"
  using assms
proof (induction xs arbitrary: m)
  case Nil
  show ?case by simp
next
  case (Cons x xs)
  obtain bol q where x: "x = (bol, q)" by (cases x)
  obtain vs where vs: "tabla_map bol = Some vs" "vs \<noteq> []" and q: "0 \<le> q"
    using Cons.prems x by auto
  obtain v vs' where v: "vs = v # vs'" using vs(2) by (cases vs) auto
  let ?n = "keherwa_stroke (bol, q)"
  have step: "keherwa_loop (x # xs) m = keherwa_loop xs (append_el ql ?n m)"
    by (simp add: x vs(1) v keherwa_stroke_def bind_err_def Let_def)
  have rest: "\<forall>(bol, q)\<in>set xs. (\<exists>vs. tabla_map bol = Some vs \<and> vs \<noteq> []) \<and> 0 \<le> q"
    using Cons.prems by simp
  have h: "highestTime ql (append_el ql ?n m) = highestTime ql m + ql ?n"
    by (rule highestTime_append_el) (simp add: ql_keherwa_stroke q)
  show ?case
    unfolding step Cons.IH [OF rest] h
    by (simp add: x append_el_def)
qed

lemma tabla_map_pattern:
  "tabla_map ''Dha'' = Some [36, 37]" "tabla_map ''Ge'' = Some [36]" "tabla_map ''Na'' = Some [37]"
  "tabla_map ''Tin'' = Some [45]" "tabla_map ''Ka'' = Some [44]" "tabla_map ''Dhin'' = Some [36, 45]"
  by (simp_all add: tabla_map_def)

lemma tuplets_keherwa_stroke: "tuplets (duration_of (keherwa_stroke x)) = [(3, 2)]"
proof -
  have "\<And>n. tuplets (duration_of (set_tuplets [(3, 2)] n)) = [(3, 2)]"
    subgoal for n by (cases n) (simp_all add: set_tuplets_def map_duration_def duration_of_def)
    done
  then show ?thesis by (simp add: keherwa_stroke_def Let_def split: prod.splits)
qed

lemma create_keherwa_cycle_value:
  "create_keherwa_cycle =
     Inr \<lparr>timeSignature = Some ''4/4'', m_elements = place 0 ql (map keherwa_stroke pattern_bols)\<rparr>"
proof -
  have "\<forall>(bol, q)\<in>set pattern_bols. (\<exists>vs. tabla_map bol = Some vs \<and> vs \<noteq> []) \<and> 0 \<le> q"
    by (simp add: pattern_bols_def tabla_map_pattern long_beat_def short_beat_def)
  then have "keherwa_loop pattern_bols [] =
      Inr ([] @ place (highestTime ql []) ql (map keherwa_stroke pattern_bols))"
    by (rule keherwa_loop_place)
  then show ?thesis by (simp add: create_keherwa_cycle_def bind_err_def highestTime_def)
qed

lemma keherwa_offsets:
  "map (\<lambda>(t, n). (t, ql n)) (place 0 ql (map keherwa_stroke pattern_bols)) =
     [(0, 2 / 3), (2 / 3, 1 / 3), (1, 2 / 3), (5 / 3, 1 / 3),
      (2, 2 / 3), (8 / 3, 1 / 3), (3, 2 / 3), (11 / 3, 1 / 3)]"
  by (simp add: pattern_bols_def long_beat_def short_beat_def ql_keherwa_stroke)

lemma keherwa_tuplets:
  "map (\<lambda>(t, n). tuplets (duration_of n)) (place 0 ql (map keherwa_stroke pattern_bols)) =
     replicate 8 [(3, 2)]"
  by (simp add: pattern_bols_def tuplets_keherwa_stroke numeral_eq_Suc)

text \<open>
  Claim C2. \<open>create_keherwa_cycle\<close> returns a measure of eight events. Their lengths
  alternate between 2/3 and 1/3 of a beat, each pair filling one beat from a whole-beat
  offset, and sum to exactly 4 beats; every event carries the tuplet (3, 2).
\<close>

theorem create_keherwa_cycle_beats:
  "\<not> isl create_keherwa_cycle \<and>
   map (\<lambda>(t, n). (t, ql n)) (m_elements (projr create_keherwa_cycle)) =
     [(0, 2 / 3), (2 / 3, 1 / 3), (1, 2 / 3), (5 / 3, 1 / 3),
      (2, 2 / 3), (8 / 3, 1 / 3), (3, 2 / 3), (11 / 3, 1 / 3)] \<and>
   sum_list (map (\<lambda>(t, n). ql n) (m_elements (projr create_keherwa_cycle))) = 4 \<and>
   map (\<lambda>(t, n). tuplets (duration_of n)) (m_elements (projr create_keherwa_cycle)) =
     replicate 8 [(3, 2)]"
proof -
  let ?es = "place 0 ql (map keherwa_stroke pattern_bols)"
  have "map (\<lambda>(t, n). ql n) ?es = map snd (map (\<lambda>(t, n). (t, ql n)) ?es)"
    by (simp add: case_prod_unfold)
  also have "\<dots> = [2 / 3, 1 / 3, 2 / 3, 1 / 3, 2 / 3, 1 / 3, 2 / 3, 1 / 3]"
    unfolding keherwa_offsets by simp
  finally have "sum_list (map (\<lambda>(t, n). ql n) ?es) = 4" by simp
  then show ?thesis
    by (simp add: create_keherwa_cycle_value keherwa_offsets keherwa_tuplets)
qed

subsection \<open>Reading a stream that was built in order\<close>

lemma elements_alt: "elements s = sort_key stream_key s"
proof -
  have "(\<lambda>(off, e). (off, classSortOrder e)) = stream_key"
    by (rule ext) (simp add: stream_key_def)
  then show ?thesis by (simp add: elements_def)
qed

lemma elements_sorted: "sorted (map stream_key s) \<Longrightarrow> elements s = s"
  unfolding elements_alt by (rule sort_key_id_if_sorted)

lemma place_notes_keys:
  assumes "\<forall>n\<in>set ns. 0 \<le> ql n"
  shows "sorted (map stream_key (place t el_ql (map GeneralNote ns))) \<and>
         (\<forall>k\<in>set (map stream_key (place t el_ql (map GeneralNote ns))). (t, 20) \<le> k)"
  using assms
proof (induction ns arbitrary: t)
  case Nil
  show ?case by simp
next
  case (Cons n ns)
  have q: "0 \<le> ql n" and rest: "\<forall>n\<in>set ns. 0 \<le> ql n" using Cons.prems by simp_all
  let ?t' = "t + el_ql (GeneralNote n)"
  have t': "t \<le> ?t'" using q by (simp add: el_ql_def)
  from Cons.IH [OF rest, of ?t']
  have s: "sorted (map stream_key (place ?t' el_ql (map GeneralNote ns)))"
    and lb: "\<forall>k\<in>set (map stream_key (place ?t' el_ql (map GeneralNote ns))). (?t', 20) \<le> k"
    by simp_all
  have lb': "\<forall>k\<in>set (map stream_key (place ?t' el_ql (map GeneralNote ns))). (t, 20) \<le> k"
  proof
    fix k assume "k \<in> set (map stream_key (place ?t' el_ql (map GeneralNote ns)))"
    with lb have "(?t', 20) \<le> k" by blast
    moreover have "(t, 20 :: int) \<le> (?t', 20)" using t' by simp
    ultimately show "(t, 20) \<le> k" by (rule order_trans [rotated])
  qed
  have k0: "stream_key (t, GeneralNote n) = (t, 20)"
    by (simp add: stream_key_def classSortOrder_def)
  show ?case using s lb' k0 by simp
qed

lemma recurse_notes_placed:
  assumes "0 \<le> t" and "\<forall>n\<in>set ns. 0 \<le> ql n"
  shows "recurse_notes ((0, Instrument i) # place t el_ql (map GeneralNote ns)) = place t ql ns"
proof -
  let ?s = "place t el_ql (map GeneralNote ns)"
  have s: "sorted (map stream_key ?s)"
    and lb: "\<forall>k\<in>set (map stream_key ?s). (t, 20) \<le> k"
    using place_notes_keys [OF assms(2), of t] by simp_all
  have k0: "stream_key (0, Instrument i) = (0, - 25)"
    by (simp add: stream_key_def classSortOrder_def)
  have "\<forall>k\<in>set (map stream_key ?s). (0 :: rat, - 25 :: int) \<le> k"
  proof
    fix k assume "k \<in> set (map stream_key ?s)"
    with lb have "(t, 20) \<le> k" by blast
    moreover have "(0 :: rat, - 25 :: int) \<le> (t, 20)" using assms(1) by simp
    ultimately show "(0, - 25) \<le> k" by (rule order_trans [rotated])
  qed
  then have "sorted (map stream_key ((0, Instrument i) # ?s))" using s k0 by simp
  then have e: "elements ((0, Instrument i) # ?s) = (0, Instrument i) # ?s"
    by (rule elements_sorted)
  have "concat (map notes_in (place u el_ql (map GeneralNote ns))) = place u ql ns" for u
    by (induction ns arbitrary: u) (simp_all add: notes_in_def el_ql_def)
  then show ?thesis by (simp add: recurse_notes_alt e notes_in_Instrument)
qed

subsection \<open>The fracture texture\<close>

lemma fracture_notes:
  "new_note ''G3'' = Inr (Note (new_component \<lparr>step = CHR ''G'', alter = 0, octave = 3, microtone = 0\<rparr>) default_duration)"
  "new_note ''G#3'' = Inr (Note (new_component \<lparr>step = CHR ''G'', alter = 1, octave = 3, microtone = 0\<rparr>) default_duration)"
  by code_simp+

lemma fracture_loop_step:
  "fracture_loop (i # rest) s = fracture_loop rest (append_el el_ql (GeneralNote (fracture_chord i)) s)"
  by (simp add: fracture_notes bind_err_def Let_def fracture_chord_def set_quarterLength_def
      set_velocity_def add_articulation_def map_duration_def map_components_def new_chord_notes_def
      components_def duration_of_def new_component_def default_duration_def)

lemma map_snd_place: "map snd (place t dur es) = es"
  by (induction es arbitrary: t) simp_all

lemma fracture_loop_place:
  "fracture_loop xs s =
     Inr (s @ place (highestTime el_ql s) el_ql (map (\<lambda>i. GeneralNote (fracture_chord i)) xs))"
proof (induction xs arbitrary: s)
  case Nil
  show ?case by simp
next
  case (Cons i xs)
  let ?e = "GeneralNote (fracture_chord i)"
  have q: "el_ql ?e = 2" by (simp add: el_ql_def ql_def duration_of_def fracture_chord_def)
  have h: "highestTime el_ql (append_el el_ql ?e s) = highestTime el_ql s + el_ql ?e"
    by (rule highestTime_append_el) (simp add: q)
  show ?case
    unfolding fracture_loop_step Cons.IH h by (simp add: append_el_def)
qed

lemma generate_fracture_texture_value:
  "generate_fracture_texture =
     Inr \<lparr>part_id = None,
          p_elements = (0, Instrument ''Violoncello'') #
            place 0 el_ql (map GeneralNote (map fracture_chord [0..<16]))\<rparr>"
proof -
  have "highestTime el_ql [(0, Instrument ''Violoncello'')] = 0"
    by (simp add: highestTime_def el_ql_def)
  then show ?thesis
    by (simp add: generate_fracture_texture_def fracture_loop_place insert_at_def bind_err_def comp_def)
qed

lemma fracture_chords:
  "map snd (recurse_notes (p_elements (projr generate_fracture_texture))) = map fracture_chord [0..<16]"
proof -
  have "\<forall>n\<in>set (map fracture_chord [0..<16]). 0 \<le> ql n"
    by (simp add: ql_def duration_of_def fracture_chord_def)
  then have "recurse_notes ((0, Instrument ''Violoncello'') #
      place 0 el_ql (map GeneralNote (map fracture_chord [0..<16]))) =
      place 0 ql (map fracture_chord [0..<16])"
    by (intro recurse_notes_placed) simp_all
  then show ?thesis by (simp add: generate_fracture_texture_value map_snd_place)
qed

lemma fracture_names:
  "nameWithOctave \<lparr>step = CHR ''G'', alter = 0, octave = 3, microtone = 0\<rparr> = ''G3''"
  "nameWithOctave \<lparr>step = CHR ''G'', alter = 1, octave = 3, microtone = 0\<rparr> = ''G#3''"
  by code_simp+

lemma crescendo: "map (\<lambda>i. 60 + i * 3) [0..<16] =
  [60 :: nat, 63, 66, 69, 72, 75, 78, 81, 84, 87, 90, 93, 96, 99, 102, 105]"
  by code_simp

text \<open>
  Claim C6. \<open>generate_fracture_texture\<close> returns exactly 16 chords, each of the two
  pitches G3 and G#3 and of quarter length 2. Their loudness starts at 60 and grows by 3
  from one chord to the next, so the sequence never decreases; nothing caps it, and the
  last chord has 60 + 15 * 3 = 105.
\<close>

theorem generate_fracture_texture_crescendo:
  "\<not> isl generate_fracture_texture \<and>
   length (recurse_notes (p_elements (projr generate_fracture_texture))) = 16 \<and>
   map (\<lambda>(t, n). map (\<lambda>c. nameWithOctave (c_pitch c)) (components n))
     (recurse_notes (p_elements (projr generate_fracture_texture))) = replicate 16 [''G3'', ''G#3''] \<and>
   map (\<lambda>(t, n). ql n) (recurse_notes (p_elements (projr generate_fracture_texture))) = replicate 16 2 \<and>
   map (\<lambda>(t, n). map velocity (components n))
     (recurse_notes (p_elements (projr generate_fracture_texture))) =
     map (\<lambda>v. [Some v, Some v]) [60, 63, 66, 69, 72, 75, 78, 81, 84, 87, 90, 93, 96, 99, 102, 105]"
proof -
  let ?r = "recurse_notes (p_elements (projr generate_fracture_texture))"
  have f: "\<And>h. map (\<lambda>(t, n). h n) ?r = map h (map fracture_chord [0..<16])"
    unfolding fracture_chords [symmetric] by (simp add: case_prod_unfold comp_def)
  have len: "length ?r = 16"
    using arg_cong [OF fracture_chords, of length] by simp
  have names: "map (\<lambda>c. nameWithOctave (c_pitch c)) (components (fracture_chord i)) = [''G3'', ''G#3'']" for i
    by (simp add: fracture_chord_def components_def fracture_names)
  have v: "map (\<lambda>n. map velocity (components n)) (map fracture_chord [0..<16]) =
      map (\<lambda>v. [Some v, Some v]) (map (\<lambda>i. 60 + i * 3) [0..<16])"
    by (simp add: fracture_chord_def components_def comp_def)
  have q: "map ql (map fracture_chord [0..<16]) = replicate 16 2"
    by (simp add: ql_def duration_of_def fracture_chord_def comp_def map_replicate_const)
  have n: "map (\<lambda>n. map (\<lambda>c. nameWithOctave (c_pitch c)) (components n)) (map fracture_chord [0..<16]) =
      replicate 16 [''G3'', ''G#3'']"
    by (simp add: names comp_def map_replicate_const)
  show ?thesis
    unfolding f len n q v crescendo by (simp add: generate_fracture_texture_value)
qed

subsection \<open>The rock riff\<close>

lemma riff_chords:
  "make_power_chord ''D3'' 4 = Inr (riff_bar ! 0)"
  "make_power_chord ''A2'' 4 = Inr (riff_bar ! 1)"
  "make_power_chord ''G2'' 4 = Inr (riff_bar ! 2)"
  "map_sum id (set_quarterLength 4) (new_chord [''G2'', ''Bb2'', ''D3'']) = Inr (riff_bar ! 3)"
  by code_simp+

lemma fold_append_el_place:
  assumes "\<forall>e\<in>set es. 0 \<le> dur e"
  shows "fold (append_el dur) es s = s @ place (highestTime dur s) dur es"
  using assms
proof (induction es arbitrary: s)
  case Nil
  show ?case by simp
next
  case (Cons e es)
  have e: "0 \<le> dur e" and rest: "\<forall>e\<in>set es. 0 \<le> dur e" using Cons.prems by simp_all
  have h: "highestTime dur (append_el dur e s) = highestTime dur s + dur e"
    using e by (rule highestTime_append_el)
  show ?case
    by (simp add: Cons.IH [OF rest] h) (simp add: append_el_def)
qed

lemma riff_bar_nth: "[riff_bar ! 0, riff_bar ! 1, riff_bar ! 2, riff_bar ! 3] = riff_bar"
  by (simp add: riff_bar_def)

lemma riff_loop_step:
  "riff_loop (i # rest) s = riff_loop rest (fold (append_el el_ql) (map GeneralNote riff_bar) s)"
proof -
  obtain gm where gm: "new_chord [''G2'', ''Bb2'', ''D3''] = Inr gm"
    and q: "set_quarterLength 4 gm = riff_bar ! 3"
    using riff_chords(4) by (cases "new_chord [''G2'', ''Bb2'', ''D3'']") auto
  have "map GeneralNote riff_bar =
      [GeneralNote (riff_bar ! 0), GeneralNote (riff_bar ! 1), GeneralNote (riff_bar ! 2),
       GeneralNote (riff_bar ! 3)]"
    by (subst riff_bar_nth [symmetric]) simp
  then show ?thesis
    by (simp add: riff_chords(1-3) gm q bind_err_def Let_def)
qed

lemma riff_loop_fold:
  "riff_loop xs s =
     Inr (fold (append_el el_ql) (map GeneralNote (concat (map (\<lambda>i. riff_bar) xs))) s)"
proof (induction xs arbitrary: s)
  case Nil
  show ?case by simp
next
  case (Cons i xs)
  show ?case unfolding riff_loop_step Cons.IH by simp
qed

lemma riff_bar_ql: "n \<in> set riff_bar \<Longrightarrow> ql n = 4"
  by (auto simp: riff_bar_def ql_def duration_of_def)

lemma riff_chord_list_ql: "n \<in> set riff_chord_list \<Longrightarrow> ql n = 4"
  by (auto simp: riff_chord_list_def riff_bar_ql)

lemma generate_rock_riff_value:
  "generate_rock_riff =
     Inr \<lparr>part_id = None,
          p_elements = (0, Instrument ''ElectricGuitar'') #
            place 0 el_ql (map GeneralNote riff_chord_list)\<rparr>"
proof -
  have c: "concat (map (\<lambda>i. riff_bar) [0..<4]) = riff_chord_list"
    by (simp add: riff_chord_list_def map_replicate_const)
  have "\<forall>e\<in>set (map GeneralNote riff_chord_list). 0 \<le> el_ql e"
    by (auto simp: el_ql_def riff_chord_list_ql)
  then have "fold (append_el el_ql) (map GeneralNote riff_chord_list) [(0, Instrument ''ElectricGuitar'')] =
      [(0, Instrument ''ElectricGuitar'')] @
      place (highestTime el_ql [(0, Instrument ''ElectricGuitar'')]) el_ql (map GeneralNote riff_chord_list)"
    by (rule fold_append_el_place)
  moreover have "highestTime el_ql [(0, Instrument ''ElectricGuitar'')] = 0"
    by (simp add: highestTime_def el_ql_def)
  ultimately show ?thesis
    by (simp add: generate_rock_riff_def riff_loop_fold c insert_at_def bind_err_def)
qed

lemma riff_notes:
  "recurse_notes (p_elements (projr generate_rock_riff)) = place 0 ql riff_chord_list"
proof -
  have "\<forall>n\<in>set riff_chord_list. 0 \<le> ql n" by (simp add: riff_chord_list_ql)
  then have "recurse_notes ((0, Instrument ''ElectricGuitar'') #
      place 0 el_ql (map GeneralNote riff_chord_list)) = place 0 ql riff_chord_list"
    by (intro recurse_notes_placed) simp_all
  then show ?thesis by (simp add: generate_rock_riff_value)
qed

subsection \<open>The alaap\<close>

lemma round_double_exact:
  assumes "2 * y \<in> \<int>" and "\<bar>y\<bar> < 2 ^ 52"
  shows "round_double y = y"
proof -
  obtain m :: int where m: "2 * y = of_int m" using assms(1) by (rule Ints_cases)
  have u: "ulp y = 1 / 2" using assms(2) by (simp add: ulp_def)
  have q: "y / (1 / 2) = of_int m" using m by simp
  have "round_double y = (1 / 2) * of_int m"
    unfolding round_double_def u Let_def q by simp
  then show ?thesis using m by simp
qed

lemma bit_length_bounds: "2 ^ k \<le> n \<Longrightarrow> n < 2 ^ Suc k \<Longrightarrow> bit_length n = Suc k"
proof (induction k arbitrary: n)
  case 0
  then have "n = 1" by simp
  then show ?case by (simp add: bit_length.simps [of "Suc 0"] bit_length.simps [of 0])
next
  case (Suc k)
  have "2 ^ k \<le> n div 2" using Suc.prems(1) by simp
  moreover have "n div 2 < 2 ^ Suc k" using Suc.prems(2) by simp
  ultimately have "bit_length (n div 2) = Suc k" by (rule Suc.IH)
  moreover have "n \<noteq> 0"
  proof -
    have "0 < (2 :: nat) ^ Suc k" by simp
    then show ?thesis using Suc.prems(1) by linarith
  qed
  ultimately show ?case by (subst bit_length.simps) simp
qed

lemma ulp_52:
  assumes "2 ^ 52 \<le> y" and "y < 2 ^ 53"
  shows "ulp y = 1"
proof -
  have y0: "0 \<le> y" using assms(1) by (rule order_trans [rotated]) simp
  have "(2 :: int) ^ 52 \<le> \<lfloor>y\<rfloor>" using assms(1) by (simp add: le_floor_iff)
  then have "nat ((2 :: int) ^ 52) \<le> nat \<lfloor>y\<rfloor>" by (rule nat_mono)
  then have lo: "(2 :: nat) ^ 52 \<le> nat \<lfloor>y\<rfloor>" by (simp add: nat_power_eq)
  have "\<lfloor>y\<rfloor> < (2 :: int) ^ 53" using assms(2) by (simp add: floor_less_iff)
  then have "nat \<lfloor>y\<rfloor> < nat ((2 :: int) ^ 53)" by (subst nat_mono_iff) simp_all
  then have hi: "nat \<lfloor>y\<rfloor> < (2 :: nat) ^ Suc 52" by (simp add: nat_power_eq)
  have "bit_length (nat \<lfloor>y\<rfloor>) = Suc 52" using lo hi by (rule bit_length_bounds)
  then show ?thesis using assms(1) y0 by (simp add: ulp_def)
qed

lemma round_double_52:
  fixes m :: int
  assumes "2 ^ 52 \<le> m" and "m < 2 ^ 53 - 1"
  shows "round_double (of_int m) = of_int m"
    and "round_double (of_int m + 1 / 2) = of_int (if even m then m else m + 1)"
proof -
  have lo: "(2 :: rat) ^ 52 \<le> of_int m"
    using assms(1) by (metis of_int_le_iff of_int_numeral of_int_power)
  have hi: "(of_int m :: rat) + 1 / 2 < 2 ^ 53"
  proof -
    have "(of_int m :: rat) \<le> of_int (2 ^ 53 - 2)" using assms(2) by (subst of_int_le_iff) simp
    then show ?thesis by simp
  qed
  have u1: "ulp (of_int m) = 1" using lo hi by (intro ulp_52) simp_all
  have u2: "ulp (of_int m + 1 / 2) = 1" using lo hi by (intro ulp_52) simp_all
  show "round_double (of_int m) = of_int m"
    unfolding round_double_def u1 Let_def by simp
  have f: "\<lfloor>(of_int m :: rat) + 1 / 2\<rfloor> = m" by (simp add: floor_unique)
  show "round_double (of_int m + 1 / 2) = of_int (if even m then m else m + 1)"
    unfolding round_double_def u2 Let_def by (simp add: f)
qed

lemma half_grid_cases:
  fixes y :: rat
  assumes "2 * y \<in> \<int>"
  obtains m :: int where "y = of_int m" | m :: int where "y = of_int m + 1 / 2"
proof -
  obtain k :: int where k: "2 * y = of_int k" using assms by (rule Ints_cases)
  show ?thesis
  proof (cases "even k")
    case True
    then obtain m where "k = 2 * m" by (rule evenE)
    then have "y = of_int m" using k by simp
    then show ?thesis by (rule that(1))
  next
    case False
    then obtain m where "k = 2 * m + 1" by (rule oddE)
    then have "y = of_int m + 1 / 2" using k by (simp add: field_simps)
    then show ?thesis by (rule that(2))
  qed
qed

lemma round_double_above:
  fixes y :: rat
  assumes "2 * y \<in> \<int>" and "2 ^ 52 \<le> y" and "y < 2 ^ 52 + 2"
  shows "2 ^ 52 \<le> round_double y"
  using assms(1)
proof (cases rule: half_grid_cases)
  case (1 m)
  have lo: "2 ^ 52 \<le> m" using assms(2) unfolding 1
    by (metis of_int_le_iff of_int_numeral of_int_power)
  have "(of_int m :: rat) < of_int (2 ^ 52 + 2)" using assms(3) unfolding 1 by simp
  then have "m < 2 ^ 52 + 2" by (subst (asm) of_int_less_iff)
  then have hi: "m < 2 ^ 53 - 1" by simp
  show ?thesis unfolding 1 round_double_52(1) [OF lo hi] using assms(2) 1 by simp
next
  case (2 m)
  have "(of_int (2 ^ 52) :: rat) < of_int m + 1" using assms(2) unfolding 2 by simp
  then have "(of_int (2 ^ 52) :: rat) < of_int (m + 1)" by simp
  then have "2 ^ 52 < m + 1" by (subst (asm) of_int_less_iff)
  then have lo: "2 ^ 52 \<le> m" by simp
  have "(of_int m :: rat) < of_int (2 ^ 52 + 2)" using assms(3) unfolding 2 by simp
  then have "m < 2 ^ 52 + 2" by (subst (asm) of_int_less_iff)
  then have hi: "m < 2 ^ 53 - 1" by simp
  have r: "(2 :: rat) ^ 52 \<le> of_int m"
    using lo by (metis of_int_le_iff of_int_numeral of_int_power)
  show ?thesis unfolding 2 round_double_52(2) [OF lo hi] using r by simp
qed

lemma fl_add_half_stalls:
  fixes x :: rat
  assumes "2 * x \<in> \<int>" and "0 \<le> x" and "x \<le> 2 ^ 52"
  shows "2 * fl_add x (1 / 2) \<in> \<int> \<and> 0 \<le> fl_add x (1 / 2) \<and> fl_add x (1 / 2) \<le> 2 ^ 52"
proof (cases "x + 1 / 2 < 2 ^ 52")
  case True
  have g: "2 * (x + 1 / 2) \<in> \<int>"
  proof -
    have "2 * (x + 1 / 2) = 2 * x + 1" by simp
    then show ?thesis using assms(1) by simp
  qed
  have "\<bar>x + 1 / 2\<bar> < 2 ^ 52" using True assms(2) by simp
  then have "fl_add x (1 / 2) = x + 1 / 2"
    unfolding fl_add_def using g by (intro round_double_exact)
  then show ?thesis using g True assms(2) by simp
next
  case False
  have e: "(2 :: int) ^ 52 \<le> 2 ^ 52" "(2 :: int) ^ 52 < 2 ^ 53 - 1" by simp_all
  have p: "(of_int (2 ^ 52) :: rat) = 2 ^ 52" by simp
  from assms(1) have "fl_add x (1 / 2) = 2 ^ 52"
  proof (cases rule: half_grid_cases)
    case (1 m)
    have "(of_int m :: rat) \<le> of_int (2 ^ 52)" using assms(3) unfolding 1 by simp
    then have a: "m \<le> 2 ^ 52" by (subst (asm) of_int_le_iff)
    have "(of_int (2 ^ 52) :: rat) < of_int (m + 1)" using False unfolding 1 by simp
    then have "2 ^ 52 < m + 1" by (subst (asm) of_int_less_iff)
    with a have "m = 2 ^ 52" by simp
    then have "x + 1 / 2 = of_int (2 ^ 52) + 1 / 2" using 1 by simp
    then show ?thesis unfolding fl_add_def using round_double_52(2) [OF e] by simp
  next
    case (2 m)
    have "(of_int m :: rat) < of_int (2 ^ 52)" using assms(3) unfolding 2 by simp
    then have a: "m < 2 ^ 52" by (subst (asm) of_int_less_iff)
    have "(of_int (2 ^ 52) :: rat) \<le> of_int (m + 1)" using False unfolding 2 by simp
    then have "2 ^ 52 \<le> m + 1" by (subst (asm) of_int_le_iff)
    with a have "m + 1 = 2 ^ 52" by simp
    then have "x + 1 / 2 = of_int (2 ^ 52)" unfolding 2
      by (metis add.assoc field_sum_of_halves of_int_1 of_int_add)
    then show ?thesis unfolding fl_add_def using round_double_52(1) [OF e] by simp
  qed
  then show ?thesis by simp
qed

lemma alaap_loop_result:
  assumes ne: "names \<noteq> []" and ok: "\<forall>n\<in>set names. \<exists>p. Pitch n = Inr p"
    and D: "D \<le> 2 ^ 52"
  shows "0 \<le> off \<Longrightarrow> 2 * off \<in> \<int> \<Longrightarrow>
         \<exists>ns g'. alaap_loop D names off s g =
             Some (Inr (s @ place off el_ql (map GeneralNote ns), g')) \<and> alaap_post D off ns"
proof (induction "nat \<lceil>2 * (D - off)\<rceil>" arbitrary: off s g rule: less_induct)
  case less
  show ?case
  proof (cases "off < D")
    case False
    then have "alaap_loop D names off s g = Some (Inr (s @ place off el_ql (map GeneralNote []), g))"
      by (subst alaap_loop.simps) simp
    moreover have "alaap_post D off []" using False by (simp add: alaap_post_def)
    ultimately show ?thesis by blast
  next
    case True
    obtain p_str g1 where c1: "choices names weights g = Inr (p_str, g1)" and mem: "p_str \<in> set names"
      using choices_weights_ok [OF ne] by blast
    obtain p where "Pitch p_str = Inr p" using ok mem by blast
    then have c2: "new_note p_str = Inr (Note (new_component p) default_duration)"
      by (rule new_note_ok)
    obtain dur g2 where c3: "choice alaap_durations g1 = Inr (dur, g2)"
      using choice_alaap_ok by blast
    have dur: "dur \<in> {1 / 2, 1, 3 / 2, 2}" using c3 by (rule choice_alaap_durations)
    have dlo: "1 / 2 \<le> dur" and dhi: "dur \<le> 2" using dur by auto
    have dg: "2 * dur \<in> \<int>"
    proof -
      from dur have "2 * dur = of_int 1 \<or> 2 * dur = of_int 2 \<or> 2 * dur = of_int 3 \<or> 2 * dur = of_int 4"
        by auto
      then obtain k :: int where "2 * dur = of_int k" by blast
      then show ?thesis by (simp only: Ints_of_int)
    qed
    let ?n = "set_quarterLength dur (Note (new_component p) default_duration)"
    let ?e = "GeneralNote ?n"
    let ?y = "off + dur"
    have qn: "ql ?n = dur" by (rule ql_set_quarterLength)
    have qe: "el_ql ?e = dur" by (simp add: el_ql_def qn)
    have yg: "2 * ?y \<in> \<int>"
    proof -
      have "2 * ?y = 2 * off + 2 * dur" by simp
      then show ?thesis using less.prems(2) dg by simp
    qed
    have y0: "0 \<le> ?y" using less.prems(1) dlo by simp
    have unfold: "alaap_loop D names off s g =
        alaap_loop D names (fl_add off dur) (insert_at off ?e s) g2"
      using True c1 c2 c3 by (subst alaap_loop.simps) simp
    show ?thesis
    proof (cases "?y < D")
      case True
      then have "\<bar>?y\<bar> < 2 ^ 52" using y0 D by simp
      then have fl: "fl_add off dur = ?y"
        unfolding fl_add_def using yg by (intro round_double_exact)
      have m: "nat \<lceil>2 * (D - ?y)\<rceil> < nat \<lceil>2 * (D - off)\<rceil>"
        using alaap_step_measure [OF \<open>off < D\<close> dlo] by (simp only: Suc_le_eq)
      obtain ns' g' where r: "alaap_loop D names ?y (insert_at off ?e s) g2 =
          Some (Inr (insert_at off ?e s @ place ?y el_ql (map GeneralNote ns'), g'))"
        and post: "alaap_post D ?y ns'"
        using less.hyps [OF m y0 yg] by blast
      let ?T' = "sum_list (map ql ns')"
      from post True have p1: "\<forall>n\<in>set ns'. ql n \<in> {1 / 2, 1, 3 / 2, 2}"
        and p2: "D \<le> ?y + ?T'" "?y + ?T' < D + 2"
        and p4: "length ns' \<le> nat \<lceil>2 * (D - ?y)\<rceil>"
        and p5: "ns' \<noteq> [] \<longrightarrow> ?y + sum_list (map ql (butlast ns')) < D"
        by (simp_all add: alaap_post_def Let_def)
      have "0 < ?T'" using p2(1) True by simp
      then have nn: "ns' \<noteq> []" by auto
      have eq: "alaap_loop D names off s g =
          Some (Inr (s @ place off el_ql (map GeneralNote (?n # ns')), g'))"
        using unfold r by (simp add: fl insert_at_def qe)
      have len: "length (?n # ns') \<le> nat \<lceil>2 * (D - off)\<rceil>"
        using p4 m unfolding length_Cons by linarith
      have q1: "\<forall>n\<in>set (?n # ns'). ql n \<in> {1 / 2, 1, 3 / 2, 2}"
        using p1 dur by (simp add: qn)
      have q2: "D \<le> off + sum_list (map ql (?n # ns'))"
        "off + sum_list (map ql (?n # ns')) < D + 2"
        using p2 by (simp_all add: qn add.assoc)
      have q5: "off + sum_list (map ql (butlast (?n # ns'))) < D"
        using p5 nn by (simp add: qn add.assoc)
      have "alaap_post D off (?n # ns')"
        unfolding alaap_post_def Let_def
        using q1 q2 q5 len \<open>off < D\<close> by (intro conjI impI) simp_all
      with eq show ?thesis by blast
    next
      case False
      have z: "D \<le> fl_add off dur"
      proof (cases "?y < 2 ^ 52")
        case True
        then have "\<bar>?y\<bar> < 2 ^ 52" using y0 by simp
        then have "fl_add off dur = ?y"
          unfolding fl_add_def using yg by (intro round_double_exact)
        then show ?thesis using False by simp
      next
        case False
        have "?y < 2 ^ 52 + 2" using \<open>off < D\<close> D dhi by simp
        then have "2 ^ 52 \<le> round_double ?y"
          using yg False by (intro round_double_above) simp_all
        then show ?thesis using D by (simp add: fl_add_def)
      qed
      then have "alaap_loop D names (fl_add off dur) (insert_at off ?e s) g2 =
          Some (Inr (insert_at off ?e s, g2))"
        by (subst alaap_loop.simps) simp
      then have eq: "alaap_loop D names off s g =
          Some (Inr (s @ place off el_ql (map GeneralNote [?n]), g2))"
        using unfold by (simp add: insert_at_def)
      have "0 < \<lceil>2 * (D - off)\<rceil>" using \<open>off < D\<close> by simp
      then have l1: "length [?n] \<le> nat \<lceil>2 * (D - off)\<rceil>"
        unfolding length_Cons list.size by linarith
      have r1: "\<forall>n\<in>set [?n]. ql n \<in> {1 / 2, 1, 3 / 2, 2}" using dur by (simp add: qn)
      have r2: "D \<le> off + sum_list (map ql [?n])" "off + sum_list (map ql [?n]) < D + 2"
        using False dhi \<open>off < D\<close> by (simp_all add: qn)
      have r5: "off + sum_list (map ql (butlast [?n])) < D" using \<open>off < D\<close> by simp
      have "alaap_post D off [?n]"
        unfolding alaap_post_def Let_def
        using r1 r2 r5 l1 \<open>off < D\<close> by (intro conjI impI) simp_all
      with eq show ?thesis by blast
    qed
  qed
qed

lemma zero_tape_choices:
  assumes "tape g = zero_tape" and "names \<noteq> []"
  shows "choices names weights g = Inr (names ! 0, g\<lparr>pos := Suc (pos g)\<rparr>)"
  using assms
  by (simp add: choices_def weights_def random_unit_def next_raw_def zero_tape_def bisect_def Let_def
      take_Cons split: nat.split)

lemma zero_tape_choice:
  assumes "tape g = zero_tape"
  shows "choice alaap_durations g = Inr (1 / 2, g\<lparr>pos := Suc (pos g)\<rparr>)"
  using assms
  by (simp add: choice_def alaap_durations_def randbelow_def next_raw_def zero_tape_def)

lemma alaap_loop_zero_tape_stalls:
  assumes "alaap_loop D0 names0 off0 s0 g0 = Some y0"
  shows "\<not> (2 ^ 52 < D0 \<and> names0 \<noteq> [] \<and> (\<exists>p. Pitch (names0 ! 0) = Inr p) \<and>
            tape g0 = zero_tape \<and> 2 * off0 \<in> \<int> \<and> 0 \<le> off0 \<and> off0 \<le> 2 ^ 52)"
proof (rule alaap_loop.raw_induct [where P = "\<lambda>D names off s g y.
          \<not> (2 ^ 52 < D \<and> names \<noteq> [] \<and> (\<exists>p. Pitch (names ! 0) = Inr p) \<and>
            tape g = zero_tape \<and> 2 * off \<in> \<int> \<and> 0 \<le> off \<and> off \<le> 2 ^ 52)", OF _ assms])
  fix loop :: "rat \<Rightarrow> string list \<Rightarrow> rat \<Rightarrow> element stream \<Rightarrow> rng \<Rightarrow> (error + (element stream \<times> rng)) option"
  fix D names off s g y
  assume IH: "\<And>D names off s g y. loop D names off s g = Some y \<Longrightarrow>
          \<not> (2 ^ 52 < D \<and> names \<noteq> [] \<and> (\<exists>p. Pitch (names ! 0) = Inr p) \<and>
            tape g = zero_tape \<and> 2 * off \<in> \<int> \<and> 0 \<le> off \<and> off \<le> 2 ^ 52)"
  assume body: "(if off < D then
             (case choices names weights g of Inl e \<Rightarrow> Some (Inl e)
              | Inr (p_str, g1) \<Rightarrow> (case new_note p_str of Inl e \<Rightarrow> Some (Inl e)
                 | Inr n \<Rightarrow> (case choice alaap_durations g1 of Inl e \<Rightarrow> Some (Inl e)
                    | Inr (dur, g2) \<Rightarrow> loop D names (fl_add off dur)
                        (insert_at off (GeneralNote (set_quarterLength dur n)) s) g2)))
           else Some (Inr (s, g))) = Some y"
  show "\<not> (2 ^ 52 < D \<and> names \<noteq> [] \<and> (\<exists>p. Pitch (names ! 0) = Inr p) \<and>
            tape g = zero_tape \<and> 2 * off \<in> \<int> \<and> 0 \<le> off \<and> off \<le> 2 ^ 52)"
  proof
    assume c: "2 ^ 52 < D \<and> names \<noteq> [] \<and> (\<exists>p. Pitch (names ! 0) = Inr p) \<and>
            tape g = zero_tape \<and> 2 * off \<in> \<int> \<and> 0 \<le> off \<and> off \<le> 2 ^ 52"
    then have lt: "off < D" by simp
    let ?g1 = "g\<lparr>pos := Suc (pos g)\<rparr>"
    let ?g2 = "?g1\<lparr>pos := Suc (pos ?g1)\<rparr>"
    have c1: "choices names weights g = Inr (names ! 0, ?g1)"
      using c by (intro zero_tape_choices) simp_all
    obtain p where "Pitch (names ! 0) = Inr p" using c by blast
    then have c2: "new_note (names ! 0) = Inr (Note (new_component p) default_duration)"
      by (rule new_note_ok)
    have t1: "tape ?g1 = zero_tape" using c by simp
    have c3: "choice alaap_durations ?g1 = Inr (1 / 2, ?g2)"
      using t1 by (rule zero_tape_choice)
    let ?n = "set_quarterLength (1 / 2) (Note (new_component p) default_duration)"
    have "loop D names (fl_add off (1 / 2)) (insert_at off (GeneralNote ?n) s) ?g2 = Some y"
      using body lt by (simp add: c1 c2 c3)
    then have n: "\<not> (2 ^ 52 < D \<and> names \<noteq> [] \<and> (\<exists>p. Pitch (names ! 0) = Inr p) \<and>
            tape ?g2 = zero_tape \<and> 2 * fl_add off (1 / 2) \<in> \<int> \<and> 0 \<le> fl_add off (1 / 2) \<and>
            fl_add off (1 / 2) \<le> 2 ^ 52)"
      by (rule IH)
    have "2 * fl_add off (1 / 2) \<in> \<int> \<and> 0 \<le> fl_add off (1 / 2) \<and> fl_add off (1 / 2) \<le> 2 ^ 52"
      using c by (intro fl_add_half_stalls) simp_all
    moreover have "tape ?g2 = zero_tape" using c by simp
    ultimately show False using n c by blast
  qed
qed

lemma generate_alaap_zero_tape_stalls:
  assumes "2 ^ 52 < D"
  shows "generate_alaap D seed0 = None"
proof -
  let ?names = "[''D4'', ''E4'', ''F#4'', ''G#4'', ''A4'', ''B4'', ''C#5'']"
  obtain sc where sc: "get_yaman_scale ''D4'' = Inr sc" and nm: "map nameWithOctave sc = ?names"
    using yaman_D4_names by (cases "get_yaman_scale ''D4''") auto
  have "\<not> isl (Pitch (?names ! 0))" using yaman_D4_names_parse by simp
  then have ok: "\<exists>p. Pitch (?names ! 0) = Inr p" by (metis sum.collapse(2))
  have "alaap_loop D ?names 0 (insert_at 0 (Instrument ''Sitar'') []) seed0 = None"
  proof (cases "alaap_loop D ?names 0 (insert_at 0 (Instrument ''Sitar'') []) seed0")
    case None
    then show ?thesis .
  next
    case (Some y)
    then have "\<not> (2 ^ 52 < D \<and> ?names \<noteq> [] \<and> (\<exists>p. Pitch (?names ! 0) = Inr p) \<and>
            tape seed0 = zero_tape \<and> 2 * (0::rat) \<in> \<int> \<and> (0::rat) \<le> 0 \<and> (0::rat) \<le> 2 ^ 52)"
      by (rule alaap_loop_zero_tape_stalls)
    then show ?thesis using assms ok by (simp add: seed0_def)
  qed
  then show ?thesis by (simp add: generate_alaap_def sc nm)
qed

lemma generate_alaap_unfold:
  "generate_alaap D g =
     map_option (\<lambda>r. bind_err r (\<lambda>(alaap_stream, g').
                   Inr (\<lparr>part_id = None, p_elements = alaap_stream\<rparr>, g')))
       (alaap_loop D [''D4'', ''E4'', ''F#4'', ''G#4'', ''A4'', ''B4'', ''C#5''] 0
          [(0, Instrument ''Sitar'')] g)"
proof -
  obtain sc where sc: "get_yaman_scale ''D4'' = Inr sc"
    and nm: "map nameWithOctave sc = [''D4'', ''E4'', ''F#4'', ''G#4'', ''A4'', ''B4'', ''C#5'']"
    using yaman_D4_names by (cases "get_yaman_scale ''D4''") auto
  show ?thesis
    unfolding generate_alaap_def sc by (simp add: nm insert_at_def split: option.split)
qed

lemma generate_alaap_skip:
  assumes "D \<le> 0"
  shows "generate_alaap D g =
           Some (Inr (\<lparr>part_id = None, p_elements = [(0, Instrument ''Sitar'')]\<rparr>, g))"
proof -
  have "\<not> 0 < D" using assms by simp
  then have "alaap_loop D [''D4'', ''E4'', ''F#4'', ''G#4'', ''A4'', ''B4'', ''C#5''] 0
      [(0, Instrument ''Sitar'')] g = Some (Inr ([(0, Instrument ''Sitar'')], g))"
    by (subst alaap_loop.simps) simp
  then show ?thesis by (simp add: generate_alaap_unfold bind_err_def)
qed

lemma generate_alaap_result:
  assumes "D \<le> 2 ^ 52"
  shows "\<exists>ns g'. generate_alaap D g =
      Some (Inr (\<lparr>part_id = None,
                  p_elements = (0, Instrument ''Sitar'') # place 0 el_ql (map GeneralNote ns)\<rparr>, g')) \<and>
      alaap_post D 0 ns"
proof -
  let ?names = "[''D4'', ''E4'', ''F#4'', ''G#4'', ''A4'', ''B4'', ''C#5'']"
  have ne: "?names \<noteq> []" by simp
  have "\<forall>n\<in>set ?names. \<not> isl (Pitch n)"
    using yaman_D4_names_parse unfolding list_all_iff .
  then have ok: "\<forall>n\<in>set ?names. \<exists>p. Pitch n = Inr p"
    by (metis sum.collapse(2))
  have z: "(0 :: rat) \<le> 0" "2 * (0 :: rat) \<in> \<int>" by simp_all
  obtain ns g' where r: "alaap_loop D ?names 0 [(0, Instrument ''Sitar'')] g =
      Some (Inr ([(0, Instrument ''Sitar'')] @ place 0 el_ql (map GeneralNote ns), g'))"
    and post: "alaap_post D 0 ns"
    using alaap_loop_result [OF ne ok assms z] by blast
  have "generate_alaap D g = Some (Inr (\<lparr>part_id = None,
      p_elements = (0, Instrument ''Sitar'') # place 0 el_ql (map GeneralNote ns)\<rparr>, g'))"
    by (simp add: generate_alaap_unfold r bind_err_def)
  with post show ?thesis by blast
qed

lemma total_duration_placed:
  assumes "\<forall>n\<in>set ns. 0 \<le> ql n"
  shows "total_duration ((0, Instrument i) # place 0 el_ql (map GeneralNote ns)) =
           sum_list (map ql ns)"
proof -
  have "recurse_notes ((0, Instrument i) # place 0 el_ql (map GeneralNote ns)) = place 0 ql ns"
    using assms by (intro recurse_notes_placed) simp_all
  moreover have "map (\<lambda>(t, n). ql n) (place 0 ql ns) = map ql (map snd (place 0 ql ns))"
    by (simp add: case_prod_unfold comp_def)
  ultimately show ?thesis by (simp add: total_duration_def map_snd_place)
qed

lemma alaap_post_nonneg:
  assumes "alaap_post D off ns"
  shows "\<forall>n\<in>set ns. 0 \<le> ql n" and "\<forall>n\<in>set ns. 1 / 2 \<le> ql n"
  using assms by (auto simp: alaap_post_def Let_def)

text \<open>
  Claim C10. For a target duration that is zero or negative the loop of
  \<open>generate_alaap\<close> does not run: the part holds the instrument marker alone, it has no
  note events, its total event duration is 0, and no pseudorandom outcome is consumed.
\<close>

theorem generate_alaap_nonpositive:
  assumes "D \<le> 0"
  shows "\<exists>p. generate_alaap D g = Some (Inr (p, g)) \<and>
             p_elements p = [(0, Instrument ''Sitar'')] \<and>
             recurse_notes (p_elements p) = [] \<and> total_duration (p_elements p) = 0"
proof -
  have "recurse_notes [(0, Instrument ''Sitar'')] = []"
    by (simp add: recurse_notes_alt elements_def notes_in_Instrument)
  then show ?thesis
    using generate_alaap_skip [OF assms, of g] by (simp add: total_duration_def)
qed

theorem generate_alaap_nonpositive_witness:
  "(- 5 :: rat) \<le> 0 \<and>
   (\<exists>p. generate_alaap (- 5) seed0 = Some (Inr (p, seed0)) \<and>
        p_elements p = [(0, Instrument ''Sitar'')] \<and>
        recurse_notes (p_elements p) = [] \<and> total_duration (p_elements p) = 0)"
  using generate_alaap_nonpositive [of "- 5" seed0] by simp

text \<open>
  Claim C8, amended. For every target duration \<open>D\<close> up to \<open>2\<^sup>5\<^sup>2\<close> and every pseudorandom
  state, \<open>generate_alaap\<close> leaves its loop and returns a part. The notes \<open>ns\<close> of the
  part sit at the successive values of the cursor: the first at 0, each later one at the
  offset of the note before it plus that note's length (this is \<open>place\<close>). Every length
  is one of 1/2, 1, 3/2 and 2, so each round moves the cursor on by at least 1/2; every
  round starts with the cursor below \<open>D\<close>; the cursor after the last round, the sum of
  the lengths, has reached \<open>D\<close>; and there are at most \<open>\<lceil>2 D\<rceil>\<close> rounds.

  As the claim is written, for every target duration, it fails: the cursor is a double,
  and from \<open>2\<^sup>5\<^sup>2\<close> on adding 1/2 to it rounds back to the same value. On the tape
  whose every outcome is 0 each draw is the length 1/2, so for \<open>D = 2\<^sup>5\<^sup>2 + 1\<close> the
  cursor reaches \<open>2\<^sup>5\<^sup>2\<close>, stays there, and the loop is never left.
\<close>

theorem generate_alaap_reaches_target:
  assumes "D \<le> 2 ^ 52"
  shows "\<exists>ns g'. generate_alaap D g =
             Some (Inr (\<lparr>part_id = None,
                         p_elements = (0, Instrument ''Sitar'') #
                                      place 0 el_ql (map GeneralNote ns)\<rparr>, g')) \<and>
           recurse_notes ((0, Instrument ''Sitar'') # place 0 el_ql (map GeneralNote ns)) =
             place 0 ql ns \<and>
           (\<forall>n\<in>set ns. ql n \<in> {1 / 2, 1, 3 / 2, 2}) \<and>
           (\<forall>n\<in>set ns. 1 / 2 \<le> ql n) \<and>
           (ns \<noteq> [] \<longrightarrow> sum_list (map ql (butlast ns)) < D) \<and>
           (0 < D \<longrightarrow> ns \<noteq> []) \<and>
           D \<le> sum_list (map ql ns) \<and>
           length ns \<le> nat \<lceil>2 * D\<rceil>"
proof -
  obtain ns g' where r: "generate_alaap D g =
      Some (Inr (\<lparr>part_id = None,
                  p_elements = (0, Instrument ''Sitar'') # place 0 el_ql (map GeneralNote ns)\<rparr>, g'))"
    and post: "alaap_post D 0 ns"
    using generate_alaap_result [OF assms] by blast
  from post have q: "\<forall>n\<in>set ns. ql n \<in> {1 / 2, 1, 3 / 2, 2}"
    and pos: "0 < D \<longrightarrow> D \<le> sum_list (map ql ns)"
    and neg: "D \<le> 0 \<longrightarrow> ns = []"
    and len: "length ns \<le> nat \<lceil>2 * D\<rceil>"
    and bl: "ns \<noteq> [] \<longrightarrow> sum_list (map ql (butlast ns)) < D"
    by (simp_all add: alaap_post_def Let_def)
  have nn: "\<forall>n\<in>set ns. 0 \<le> ql n" and half: "\<forall>n\<in>set ns. 1 / 2 \<le> ql n"
    using post by (rule alaap_post_nonneg)+
  have rn: "recurse_notes ((0, Instrument ''Sitar'') # place 0 el_ql (map GeneralNote ns)) =
      place 0 ql ns"
    using nn by (intro recurse_notes_placed) simp_all
  have reach: "D \<le> sum_list (map ql ns)"
  proof (cases "0 < D")
    case True
    with pos show ?thesis by simp
  next
    case False
    with neg have "ns = []" by simp
    then show ?thesis using False by simp
  qed
  have ne: "0 < D \<longrightarrow> ns \<noteq> []"
  proof
    assume "0 < D"
    with reach have "0 < sum_list (map ql ns)" by simp
    then show "ns \<noteq> []" by auto
  qed
  from r rn q half bl ne reach len show ?thesis by blast
qed

theorem generate_alaap_reaches_target_witness:
  "(1 :: rat) \<le> 2 ^ 52 \<and>
   (\<exists>ns g'. generate_alaap 1 seed0 =
             Some (Inr (\<lparr>part_id = None,
                         p_elements = (0, Instrument ''Sitar'') #
                                      place 0 el_ql (map GeneralNote ns)\<rparr>, g')) \<and>
           recurse_notes ((0, Instrument ''Sitar'') # place 0 el_ql (map GeneralNote ns)) =
             place 0 ql ns \<and>
           (\<forall>n\<in>set ns. ql n \<in> {1 / 2, 1, 3 / 2, 2}) \<and>
           (\<forall>n\<in>set ns. 1 / 2 \<le> ql n) \<and>
           (ns \<noteq> [] \<longrightarrow> sum_list (map ql (butlast ns)) < 1) \<and>
           ((0 :: rat) < 1 \<longrightarrow> ns \<noteq> []) \<and>
           1 \<le> sum_list (map ql ns) \<and>
           length ns \<le> nat \<lceil>2 * (1 :: rat)\<rceil>)"
  using generate_alaap_reaches_target [of 1 seed0] by simp

theorem generate_alaap_reaches_target_counterexample:
  "generate_alaap (2 ^ 52 + 1) seed0 = None"
  by (rule generate_alaap_zero_tape_stalls) simp

text \<open>
  Claim C1, amended. For every target duration \<open>D\<close> above \<open>- 2\<close> and up to \<open>2\<^sup>5\<^sup>2\<close> the
  durations of the events of \<open>generate_alaap\<close> sum to at least \<open>D\<close> and to less than
  \<open>D + 2\<close>, and each event, the last one included, has one of the lengths 1/2, 1, 3/2
  and 2 in full. As the claim is written, for every \<open>D\<close>, it fails from \<open>D = - 2\<close>
  downwards: no event is produced there, and the sum 0 is not below \<open>D + 2\<close>. Above
  \<open>2\<^sup>5\<^sup>2\<close> the cursor, a double, no longer holds every sum of the lengths, and the loop
  need not return.
\<close>

theorem generate_alaap_duration:
  assumes "- 2 < D" and "D \<le> 2 ^ 52"
  shows "\<exists>p g'. generate_alaap D g = Some (Inr (p, g')) \<and>
           D \<le> total_duration (p_elements p) \<and> total_duration (p_elements p) < D + 2 \<and>
           list_all (\<lambda>(t, n). ql n \<in> {1 / 2, 1, 3 / 2, 2}) (recurse_notes (p_elements p))"
proof -
  obtain ns g' where r: "generate_alaap D g =
      Some (Inr (\<lparr>part_id = None,
                  p_elements = (0, Instrument ''Sitar'') # place 0 el_ql (map GeneralNote ns)\<rparr>, g'))"
    and post: "alaap_post D 0 ns"
    using generate_alaap_result [OF assms(2)] by blast
  let ?T = "sum_list (map ql ns)"
  from post have q: "\<forall>n\<in>set ns. ql n \<in> {1 / 2, 1, 3 / 2, 2}"
    and pos: "0 < D \<longrightarrow> D \<le> ?T \<and> ?T < D + 2"
    and neg: "D \<le> 0 \<longrightarrow> ns = []"
    by (simp_all add: alaap_post_def Let_def)
  have nn: "\<forall>n\<in>set ns. 0 \<le> ql n" using post by (rule alaap_post_nonneg)
  have td: "total_duration ((0, Instrument ''Sitar'') # place 0 el_ql (map GeneralNote ns)) = ?T"
    using nn by (rule total_duration_placed)
  have rn: "recurse_notes ((0, Instrument ''Sitar'') # place 0 el_ql (map GeneralNote ns)) =
      place 0 ql ns"
    using nn by (intro recurse_notes_placed) simp_all
  have bounds: "D \<le> ?T \<and> ?T < D + 2"
  proof (cases "0 < D")
    case True
    with pos show ?thesis by simp
  next
    case False
    with neg have "ns = []" by simp
    then show ?thesis using False assms(1) by simp
  qed
  have "set (map snd (place 0 ql ns)) = set ns" by (simp only: map_snd_place)
  then have "\<forall>x\<in>set (place 0 ql ns). snd x \<in> set ns" by auto
  then have "list_all (\<lambda>(t, n). ql n \<in> {1 / 2, 1, 3 / 2, 2}) (place 0 ql ns)"
    using q unfolding list_all_iff by (auto simp: case_prod_unfold)
  with r td rn bounds show ?thesis by simp
qed

theorem generate_alaap_duration_witness:
  "(- 2 :: rat) < 1 \<and> (1 :: rat) \<le> 2 ^ 52 \<and>
   (\<exists>p g'. generate_alaap 1 seed0 = Some (Inr (p, g')) \<and>
           1 \<le> total_duration (p_elements p) \<and> total_duration (p_elements p) < 1 + 2 \<and>
           list_all (\<lambda>(t, n). ql n \<in> {1 / 2, 1, 3 / 2, 2}) (recurse_notes (p_elements p)))"
  using generate_alaap_duration [of 1 seed0] by simp

theorem generate_alaap_duration_counterexample:
  "generate_alaap (- 2) seed0 =
     Some (Inr (\<lparr>part_id = None, p_elements = [(0, Instrument ''Sitar'')]\<rparr>, seed0)) \<and>
   \<not> total_duration [(0, Instrument ''Sitar'')] < - 2 + 2"
proof -
  have "generate_alaap (- 2) seed0 =
      Some (Inr (\<lparr>part_id = None, p_elements = [(0, Instrument ''Sitar'')]\<rparr>, seed0))"
    by (rule generate_alaap_skip) simp
  moreover have "total_duration [(0, Instrument ''Sitar'')] = 0"
    by (simp add: total_duration_sum notes_in_Instrument)
  ultimately show ?thesis by simp
qed

end
